theory Spec2Isabelle
  imports Main "HOL-Library.AList"
begin

section \<open>JavaScript values that cross the wire\<close>

text \<open>
  The protocol of \<^verbatim>\<open>rpc-protocol.ts\<close> moves JSON texts between two sides. The values it
  serialises are modelled by the closed variant below. Numbers are the integers that a
  JavaScript number holds exactly (absolute value below \<open>2 ^ 53\<close>); strings are lists of
  code units below 256; the list of an object is the enumeration order of its own
  properties. A value of type \<open>jsv\<close> is a JavaScript value that may be \<^verbatim>\<open>undefined\<close>
  (\<open>None\<close>).
\<close>

datatype json =
    JNull
  | JBool bool
  | JNumber int
  | JString string
  | JArray "json list"
  | JObject "(string \<times> json) list"

type_synonym jsv = "json option"

text \<open>The well-formed values: safe integers, and no property name twice in an object.\<close>

fun wf_json :: "json \<Rightarrow> bool"
and wf_elems :: "json list \<Rightarrow> bool"
and wf_members :: "(string \<times> json) list \<Rightarrow> bool" where
  "wf_json JNull = True"
| "wf_json (JBool b) = True"
| "wf_json (JNumber n) = (\<bar>n\<bar> < 2 ^ 53)"
| "wf_json (JString s) = True"
| "wf_json (JArray xs) = wf_elems xs"
| "wf_json (JObject kvs) = (distinct (map fst kvs) \<and> wf_members kvs)"
| "wf_elems [] = True"
| "wf_elems (x # xs) = (wf_json x \<and> wf_elems xs)"
| "wf_members [] = True"
| "wf_members ((k, v) # kvs) = (wf_json v \<and> wf_members kvs)"

definition wf_jsv :: "jsv \<Rightarrow> bool" where
  "wf_jsv v = (case v of None \<Rightarrow> True | Some j \<Rightarrow> wf_json j)"

subsection \<open>Number to string\<close>

definition digit_char :: "nat \<Rightarrow> char" where
  "digit_char d = char_of (48 + d)"

function decimal :: "nat \<Rightarrow> string" where
  "decimal n = (if n < 10 then [digit_char n] else decimal (n div 10) @ [digit_char (n mod 10)])"
  by pat_completeness auto
termination
  by (relation "measure id") auto

declare decimal.simps [simp del]

definition decimal_int :: "int \<Rightarrow> string" where
  "decimal_int n = (if n < 0 then CHR ''-'' # decimal (nat (- n)) else decimal (nat n))"

subsection \<open>\<^verbatim>\<open>JSON.stringify\<close>\<close>

definition hexdigit :: "nat \<Rightarrow> char" where
  "hexdigit d = (if d < 10 then char_of (48 + d) else char_of (87 + d))"

text \<open>
  The escapes of \<^verbatim>\<open>QuoteJSONString\<close>: the quote, the backslash, the five short
  escapes, and \<^verbatim>\<open>\u00XX\<close> in lower-case hexadecimal for every other code unit below 32.
\<close>

definition escape_char :: "char \<Rightarrow> string" where
  "escape_char c =
     (if c = CHR 0x22 then [CHR 0x5C, CHR 0x22]
      else if c = CHR 0x5C then [CHR 0x5C, CHR 0x5C]
      else if c = CHR 0x08 then [CHR 0x5C, CHR ''b'']
      else if c = CHR 0x0C then [CHR 0x5C, CHR ''f'']
      else if c = CHR 0x0A then [CHR 0x5C, CHR ''n'']
      else if c = CHR 0x0D then [CHR 0x5C, CHR ''r'']
      else if c = CHR 0x09 then [CHR 0x5C, CHR ''t'']
      else if of_char c < (32::nat) then
        [CHR 0x5C, CHR ''u'', CHR ''0'', CHR ''0'',
         hexdigit (of_char c div 16), hexdigit (of_char c mod 16)]
      else [c])"

definition quote :: "string \<Rightarrow> string" where
  "quote s = CHR 0x22 # concat (map escape_char s) @ [CHR 0x22]"

fun JSON_stringify :: "json \<Rightarrow> string"
and stringify_elems :: "json list \<Rightarrow> string"
and stringify_members :: "(string \<times> json) list \<Rightarrow> string" where
  "JSON_stringify JNull = ''null''"
| "JSON_stringify (JBool b) = (if b then ''true'' else ''false'')"
| "JSON_stringify (JNumber n) = decimal_int n"
| "JSON_stringify (JString s) = quote s"
| "JSON_stringify (JArray xs) = ''['' @ stringify_elems xs @ '']''"
| "JSON_stringify (JObject kvs) = ''{'' @ stringify_members kvs @ ''}''"
| "stringify_elems [] = []"
| "stringify_elems [x] = JSON_stringify x"
| "stringify_elems (x # y # xs) = JSON_stringify x @ '','' @ stringify_elems (y # xs)"
| "stringify_members [] = []"
| "stringify_members [(k, v)] = quote k @ '':'' @ JSON_stringify v"
| "stringify_members ((k, v) # kv # kvs) =
     quote k @ '':'' @ JSON_stringify v @ '','' @ stringify_members (kv # kvs)"

subsection \<open>Coercions and property reads\<close>

text \<open>
  \<^verbatim>\<open>ToString\<close>, as a template literal, a string concatenation and a property key apply
  it. An array is joined with commas, \<^verbatim>\<open>null\<close> elements giving the empty string.
\<close>

fun js_toString :: "json \<Rightarrow> string"
and join_elems :: "json list \<Rightarrow> string" where
  "js_toString JNull = ''null''"
| "js_toString (JBool b) = (if b then ''true'' else ''false'')"
| "js_toString (JNumber n) = decimal_int n"
| "js_toString (JString s) = s"
| "js_toString (JArray xs) = join_elems xs"
| "js_toString (JObject kvs) = ''[object Object]''"
| "join_elems [] = []"
| "join_elems [x] = (if x = JNull then [] else js_toString x)"
| "join_elems (x # y # xs) =
     (if x = JNull then [] else js_toString x) @ '','' @ join_elems (y # xs)"

definition toString :: "jsv \<Rightarrow> string" where
  "toString v = (case v of None \<Rightarrow> ''undefined'' | Some j \<Rightarrow> js_toString j)"

text \<open>Truthiness, as \<^verbatim>\<open>&&\<close>, \<^verbatim>\<open>||\<close> and \<^verbatim>\<open>!\<close> test it.\<close>

fun truthy :: "jsv \<Rightarrow> bool" where
  "truthy None = False"
| "truthy (Some JNull) = False"
| "truthy (Some (JBool b)) = b"
| "truthy (Some (JNumber n)) = (n \<noteq> 0)"
| "truthy (Some (JString s)) = (s \<noteq> [])"
| "truthy (Some (JArray xs)) = True"
| "truthy (Some (JObject kvs)) = True"

text \<open>
  Reading one of the properties the protocol reads (\<^verbatim>\<open>type\<close>, \<^verbatim>\<open>id\<close>, \<^verbatim>\<open>proxyId\<close>,
  \<^verbatim>\<open>method\<close>, \<^verbatim>\<open>args\<close>, \<^verbatim>\<open>res\<close>, \<^verbatim>\<open>err\<close>, \<^verbatim>\<open>$isError\<close>, \<^verbatim>\<open>name\<close>, \<^verbatim>\<open>message\<close>,
  \<^verbatim>\<open>stack\<close>) from a value that is not \<^verbatim>\<open>null\<close>: none of them is inherited, so an object
  gives its own property and every other value gives \<^verbatim>\<open>undefined\<close>.
\<close>

fun property :: "json \<Rightarrow> string \<Rightarrow> jsv" where
  "property (JObject kvs) k = map_of kvs k"
| "property j k = None"

subsection \<open>\<^verbatim>\<open>JSON.parse\<close>\<close>

text \<open>
  A recursive-descent reader of the JSON grammar. It either reads a value and returns the
  rest of the text, or fails: with \<open>SyntaxError\<close> where \<^verbatim>\<open>JSON.parse\<close> throws, with
  \<open>Unsupported\<close> where the text leaves the values modelled here (a fraction, an exponent,
  an integer of absolute value \<open>2 ^ 53\<close> or more, an escaped code unit above 255), and with
  \<open>OutOfFuel\<close> when the recursion bound is used up.
\<close>

datatype parse_error = SyntaxError | Unsupported | OutOfFuel

datatype 'a parsed = Parsed 'a string | Failed parse_error

definition and_then :: "'a parsed \<Rightarrow> ('a \<Rightarrow> string \<Rightarrow> 'b parsed) \<Rightarrow> 'b parsed" where
  "and_then r f = (case r of Parsed a rest \<Rightarrow> f a rest | Failed e \<Rightarrow> Failed e)"

definition is_ws :: "char \<Rightarrow> bool" where
  "is_ws c = (c = CHR 0x20 \<or> c = CHR 0x09 \<or> c = CHR 0x0A \<or> c = CHR 0x0D)"

fun skip_ws :: "string \<Rightarrow> string" where
  "skip_ws [] = []"
| "skip_ws (c # cs) = (if is_ws c then skip_ws cs else c # cs)"

definition is_digit :: "char \<Rightarrow> bool" where
  "is_digit c = (48 \<le> (of_char c :: nat) \<and> (of_char c :: nat) \<le> 57)"

definition digit_val :: "char \<Rightarrow> nat" where
  "digit_val c = of_char c - 48"

definition hexval :: "char \<Rightarrow> nat option" where
  "hexval c =
     (let n = (of_char c :: nat) in
      if 48 \<le> n \<and> n \<le> 57 then Some (n - 48)
      else if 97 \<le> n \<and> n \<le> 102 then Some (n - 87)
      else if 65 \<le> n \<and> n \<le> 70 then Some (n - 55)
      else None)"

definition unescape :: "char \<Rightarrow> char option" where
  "unescape e =
     (if e = CHR 0x22 then Some (CHR 0x22)
      else if e = CHR 0x5C then Some (CHR 0x5C)
      else if e = CHR ''/'' then Some (CHR ''/'')
      else if e = CHR ''b'' then Some (CHR 0x08)
      else if e = CHR ''f'' then Some (CHR 0x0C)
      else if e = CHR ''n'' then Some (CHR 0x0A)
      else if e = CHR ''r'' then Some (CHR 0x0D)
      else if e = CHR ''t'' then Some (CHR 0x09)
      else None)"

text \<open>The characters of a string literal, after its opening quote.\<close>

fun parse_chars :: "string \<Rightarrow> string parsed" where
  "parse_chars [] = Failed SyntaxError"
| "parse_chars (c # cs) =
     (if c = CHR 0x22 then Parsed [] cs
      else if c = CHR 0x5C then
        (case cs of
           [] \<Rightarrow> Failed SyntaxError
         | e # cs' \<Rightarrow>
             if e = CHR ''u'' then
               (case cs' of
                  h1 # h2 # h3 # h4 # cs'' \<Rightarrow>
                    (case (hexval h1, hexval h2, hexval h3, hexval h4) of
                       (Some a, Some b, Some c, Some d) \<Rightarrow>
                         (let n = ((a * 16 + b) * 16 + c) * 16 + d in
                          if n < 256
                          then and_then (parse_chars cs'') (\<lambda>s rest. Parsed (char_of n # s) rest)
                          else Failed Unsupported)
                     | _ \<Rightarrow> Failed SyntaxError)
                | _ \<Rightarrow> Failed SyntaxError)
             else
               (case unescape e of
                  Some ch \<Rightarrow> and_then (parse_chars cs') (\<lambda>s rest. Parsed (ch # s) rest)
                | None \<Rightarrow> Failed SyntaxError))
      else if of_char c < (32::nat) then Failed SyntaxError
      else and_then (parse_chars cs) (\<lambda>s rest. Parsed (c # s) rest))"

definition number_of_digits :: "string \<Rightarrow> nat" where
  "number_of_digits ds = foldl (\<lambda>a c. 10 * a + digit_val c) 0 ds"

definition continues_number :: "string \<Rightarrow> bool" where
  "continues_number s =
     (case s of [] \<Rightarrow> False | c # cs \<Rightarrow> c = CHR ''.'' \<or> c = CHR ''e'' \<or> c = CHR ''E'')"

text \<open>
  A number: an optional minus sign, then \<^verbatim>\<open>0\<close> or a digit sequence that does not start
  with \<^verbatim>\<open>0\<close>.
\<close>

definition parse_number :: "string \<Rightarrow> json parsed" where
  "parse_number s =
     (let neg = (s \<noteq> [] \<and> hd s = CHR ''-'');
          s1 = (if neg then tl s else s)
      in case s1 of
           [] \<Rightarrow> Failed SyntaxError
         | d # ds \<Rightarrow>
             if \<not> is_digit d then Failed SyntaxError
             else
               (let ip = (if d = CHR ''0'' then [d] else takeWhile is_digit s1);
                    rest = (if d = CHR ''0'' then ds else dropWhile is_digit s1);
                    n = number_of_digits ip
                in if continues_number rest then Failed Unsupported
                   else if n < 2 ^ 53
                   then Parsed (JNumber (if neg then - int n else int n)) rest
                   else Failed Unsupported))"

definition literal :: "string \<Rightarrow> json \<Rightarrow> string \<Rightarrow> json parsed" where
  "literal w v s =
     (if take (length w) s = w then Parsed v (drop (length w) s) else Failed SyntaxError)"

text \<open>
  \<^verbatim>\<open>JSON.parse\<close> defines the properties of an object in the order of the text; a name
  that comes again keeps its place and takes the later value.
\<close>

definition define_properties :: "(string \<times> json) list \<Rightarrow> (string \<times> json) list" where
  "define_properties ms = foldl (\<lambda>al kv. AList.update (fst kv) (snd kv) al) [] ms"

fun parse_value :: "nat \<Rightarrow> string \<Rightarrow> json parsed"
and parse_elems :: "nat \<Rightarrow> string \<Rightarrow> (json list) parsed"
and parse_members :: "nat \<Rightarrow> string \<Rightarrow> ((string \<times> json) list) parsed" where
  "parse_value 0 s = Failed OutOfFuel"
| "parse_value (Suc n) s =
     (case s of
        [] \<Rightarrow> Failed SyntaxError
      | c # cs \<Rightarrow>
          if c = CHR ''{'' then
            (case skip_ws cs of
               [] \<Rightarrow> Failed SyntaxError
             | c' # cs' \<Rightarrow>
                 if c' = CHR ''}'' then Parsed (JObject []) cs'
                 else and_then (parse_members n (c' # cs'))
                        (\<lambda>ms rest. Parsed (JObject (define_properties ms)) rest))
          else if c = CHR ''['' then
            (case skip_ws cs of
               [] \<Rightarrow> Failed SyntaxError
             | c' # cs' \<Rightarrow>
                 if c' = CHR '']'' then Parsed (JArray []) cs'
                 else and_then (parse_elems n (c' # cs')) (\<lambda>vs rest. Parsed (JArray vs) rest))
          else if c = CHR 0x22 then
            and_then (parse_chars cs) (\<lambda>str rest. Parsed (JString str) rest)
          else if c = CHR ''-'' \<or> is_digit c then parse_number s
          else if c = CHR ''t'' then literal ''true'' (JBool True) s
          else if c = CHR ''f'' then literal ''false'' (JBool False) s
          else if c = CHR ''n'' then literal ''null'' JNull s
          else Failed SyntaxError)"
| "parse_elems 0 s = Failed OutOfFuel"
| "parse_elems (Suc n) s =
     and_then (parse_value n s) (\<lambda>v r.
       case skip_ws r of
         [] \<Rightarrow> Failed SyntaxError
       | c # r' \<Rightarrow>
           if c = CHR '','' then
             and_then (parse_elems n (skip_ws r')) (\<lambda>vs rest. Parsed (v # vs) rest)
           else if c = CHR '']'' then Parsed [v] r'
           else Failed SyntaxError)"
| "parse_members 0 s = Failed OutOfFuel"
| "parse_members (Suc n) s =
     (case s of
        [] \<Rightarrow> Failed SyntaxError
      | q # cs \<Rightarrow>
          if q \<noteq> CHR 0x22 then Failed SyntaxError
          else and_then (parse_chars cs) (\<lambda>k r.
            case skip_ws r of
              [] \<Rightarrow> Failed SyntaxError
            | colon # r1 \<Rightarrow>
                if colon \<noteq> CHR '':'' then Failed SyntaxError
                else and_then (parse_value n (skip_ws r1)) (\<lambda>v r2.
                  case skip_ws r2 of
                    [] \<Rightarrow> Failed SyntaxError
                  | c # r3 \<Rightarrow>
                      if c = CHR '','' then
                        and_then (parse_members n (skip_ws r3))
                          (\<lambda>ms rest. Parsed ((k, v) # ms) rest)
                      else if c = CHR ''}'' then Parsed [(k, v)] r3
                      else Failed SyntaxError)))"

text \<open>
  The whole text is one value between optional white space. No call of the reader
  consumes less than one character per two units of fuel, so twice the length is enough.
\<close>

definition JSON_parse :: "string \<Rightarrow> parse_error + json" where
  "JSON_parse s =
     (case parse_value (2 * length s + 2) (skip_ws s) of
        Failed e \<Rightarrow> Inl e
      | Parsed v rest \<Rightarrow> if skip_ws rest = [] then Inr v else Inl SyntaxError)"

section \<open>The protocol of \<^verbatim>\<open>rpc-protocol.ts\<close>\<close>

subsection \<open>Errors and thrown values\<close>

text \<open>
  An \<^verbatim>\<open>Error\<close> object, by the properties the protocol reads. \<open>stacktrace\<close> is the
  property that \<^verbatim>\<open>transformErrorForSerialization\<close> reads through a cast.
\<close>

record Error =
  name :: jsv
  message :: jsv
  stack :: jsv
  stacktrace :: jsv

text \<open>
  \<^verbatim>\<open>new Error(msg)\<close>. The stack text is captured by the platform; it is the parameter
  \<open>tr\<close> here and in every function that creates an error.
\<close>

definition new_Error :: "jsv \<Rightarrow> string \<Rightarrow> Error" where
  "new_Error tr msg =
     \<lparr>name = Some (JString ''Error''), message = Some (JString msg), stack = tr,
      stacktrace = None\<rparr>"

definition canceled :: "jsv \<Rightarrow> Error" where
  "canceled tr = (let error = new_Error tr ''Canceled'' in error\<lparr>name := message error\<rparr>)"

text \<open>What a \<^verbatim>\<open>throw\<close> or a rejection carries: an instance of \<^verbatim>\<open>Error\<close>, or any other value.\<close>

datatype thrown = ThrownError Error | ThrownValue jsv

subsection \<open>Deferred results\<close>

text \<open>
  Modelled from the spec: \<^verbatim>\<open>LazyPromise\<close> is imported from \<^verbatim>\<open>./lazy-promise\<close>, which is not
  among the sources. The spec gives a Deferred Result the states Pending, ResolvedOk,
  ResolvedErr and Canceled; a settle method moves it out of Pending and is ignored in
  every other state.
\<close>

datatype LazyPromise = Pending | ResolvedOk jsv | ResolvedErr "Error option" | Canceled

definition resolveOk :: "jsv \<Rightarrow> LazyPromise \<Rightarrow> LazyPromise" where
  "resolveOk v p = (case p of Pending \<Rightarrow> ResolvedOk v | _ \<Rightarrow> p)"

definition resolveErr :: "Error option \<Rightarrow> LazyPromise \<Rightarrow> LazyPromise" where
  "resolveErr e p = (case p of Pending \<Rightarrow> ResolvedErr e | _ \<Rightarrow> p)"

subsection \<open>Actors\<close>

text \<open>
  The promise that \<^verbatim>\<open>invokeHandler\<close> returns, by its eventual outcome, and what
  \<^verbatim>\<open>method.apply(actor, args)\<close> does: return a value, throw, or return a promise. A method
  is the function from the argument value to that outcome; an actor is the function from
  a property name to the member found there (\<open>None\<close> is \<^verbatim>\<open>undefined\<close>). Methods do not call
  back into the protocol.
\<close>

datatype handler_promise = Fulfills jsv | Rejects thrown | NeverSettles

datatype outcome = Returns jsv | Throws thrown | ReturnsPromise handler_promise

datatype member = Method "jsv \<Rightarrow> outcome" | NotCallable

type_synonym actor = "string \<Rightarrow> member option"

subsection \<open>\<^verbatim>\<open>RPCMultiplexer\<close>\<close>

text \<open>
  The multiplexer with the two parts of its surroundings that it acts on: the callbacks it
  has queued with \<^verbatim>\<open>setImmediate\<close> and that have not run yet, and the batches that
  \<^verbatim>\<open>connection.send\<close> has been given, oldest first.
\<close>

record RPCMultiplexer =
  messagesToSend :: "string list"
  immediates :: nat
  connection :: "string list list"


definition send :: "string \<Rightarrow> RPCMultiplexer \<Rightarrow> RPCMultiplexer" where
  "send msg m =
     (let m1 = (if length (messagesToSend m) = 0 then m\<lparr>immediates := immediates m + 1\<rparr> else m)
      in m1\<lparr>messagesToSend := messagesToSend m1 @ [msg]\<rparr>)"



subsection \<open>\<^verbatim>\<open>MessageFactory\<close>\<close>

datatype MessageType = Request | Reply | ReplyErr

fun MessageType_value :: "MessageType \<Rightarrow> nat" where
  "MessageType_value Request = 1"
| "MessageType_value Reply = 2"
| "MessageType_value ReplyErr = 3"

definition request :: "string \<Rightarrow> string \<Rightarrow> string \<Rightarrow> json list \<Rightarrow> string" where
  \<open>request req rpcId method args =
     ''{"type":'' @ decimal (MessageType_value Request) @ '',"id":"'' @ req
       @ ''","proxyId":"'' @ rpcId @ ''","method":"'' @ method
       @ ''","args":'' @ JSON_stringify (JArray args) @ ''}''\<close>

definition replyOK :: "string \<Rightarrow> jsv \<Rightarrow> string" where
  \<open>replyOK req res =
     (case res of
        None \<Rightarrow> ''{"type":'' @ decimal (MessageType_value Reply) @ '',"id":"'' @ req @ ''"}''
      | Some r \<Rightarrow>
          ''{"type":'' @ decimal (MessageType_value Reply) @ '',"id":"'' @ req
            @ ''","res":'' @ JSON_stringify r @ ''}'')\<close>

text \<open>
  \<^verbatim>\<open>transformErrorForSerialization\<close> gives the object \<^verbatim>\<open>{$isError: true, name, message, stack}\<close>
  for an instance of \<^verbatim>\<open>Error\<close> and the value itself for anything else.
\<close>

record SerializedError =
  ser_name :: jsv
  ser_message :: jsv
  ser_stack :: jsv

datatype serialized = Structured SerializedError | AsIs jsv

fun transformErrorForSerialization :: "thrown \<Rightarrow> serialized" where
  "transformErrorForSerialization (ThrownError error) =
     Structured
       \<lparr>ser_name = name error, ser_message = message error,
        ser_stack = (if truthy (stacktrace error) then stacktrace error else stack error)\<rparr>"
| "transformErrorForSerialization (ThrownValue v) = AsIs v"

text \<open>
  \<^verbatim>\<open>JSON.stringify\<close> of that result, as the template literal of \<^verbatim>\<open>replyErr\<close> renders it.
  A property whose value is \<^verbatim>\<open>undefined\<close> is left out of an object, and \<^verbatim>\<open>undefined\<close>
  itself renders as the text \<^verbatim>\<open>undefined\<close>.
\<close>

definition optional_property :: "string \<Rightarrow> jsv \<Rightarrow> (string \<times> json) list" where
  "optional_property k v = (case v of None \<Rightarrow> [] | Some j \<Rightarrow> [(k, j)])"

definition SerializedError_json :: "SerializedError \<Rightarrow> json" where
  "SerializedError_json e =
     JObject ((''$isError'', JBool True) # optional_property ''name'' (ser_name e)
       @ optional_property ''message'' (ser_message e)
       @ optional_property ''stack'' (ser_stack e))"

fun stringify_serialized :: "serialized \<Rightarrow> string" where
  "stringify_serialized (Structured e) = JSON_stringify (SerializedError_json e)"
| "stringify_serialized (AsIs None) = ''undefined''"
| "stringify_serialized (AsIs (Some v)) = JSON_stringify v"

fun replyErr :: "string \<Rightarrow> thrown \<Rightarrow> string" where
  \<open>replyErr req (ThrownError err) =
     ''{"type":'' @ decimal (MessageType_value ReplyErr) @ '',"id":"'' @ req @ ''","err":''
       @ stringify_serialized (transformErrorForSerialization (ThrownError err)) @ ''}''\<close>
| \<open>replyErr req (ThrownValue err) =
     ''{"type":'' @ decimal (MessageType_value ReplyErr) @ '',"id":"'' @ req @ ''","err":null}''\<close>

subsection \<open>\<^verbatim>\<open>RPCProtocolImpl\<close>\<close>

record ProxyIdentifier =
  isMain :: bool
  identifier_id :: string

definition createMainProxyIdentifier :: "string \<Rightarrow> ProxyIdentifier" where
  "createMainProxyIdentifier identifier = \<lparr>isMain = True, identifier_id = ''m'' @ identifier\<rparr>"

definition createExtensionProxyIdentifier :: "string \<Rightarrow> ProxyIdentifier" where
  "createExtensionProxyIdentifier identifier =
     \<lparr>isMain = False, identifier_id = ''e'' @ identifier\<rparr>"

text \<open>
  The function that the \<^verbatim>\<open>get\<close> trap stores in the target of a proxy: called with
  \<^verbatim>\<open>myArgs\<close>, it is \<^verbatim>\<open>remoteCall(proxyId, name, myArgs)\<close>. A target maps the names bound so
  far to their functions.
\<close>

datatype remote_function = RemoteFunction string string

type_synonym target = "string \<rightharpoonup> remote_function"

text \<open>
  The fields of the class, then the parts of its surroundings that its methods act on:
  the \<^verbatim>\<open>LazyPromise\<close> objects created so far (a reference is an index of \<open>promises\<close>), the
  callbacks that \<^verbatim>\<open>receiveRequest\<close> has attached with \<^verbatim>\<open>then\<close> and that have not run yet
  (each with the call id and the promise of its closure), and a log of the executions of
  \<^verbatim>\<open>method.apply\<close> (actor key, method key, arguments).
\<close>

record RPCProtocolImpl =
  isDisposed :: bool
  locals :: "string \<rightharpoonup> actor"
  proxies :: "string \<rightharpoonup> target"
  lastMessageId :: nat
  invokedHandlers :: "string \<rightharpoonup> handler_promise"
  pendingRPCReplies :: "string \<rightharpoonup> nat"
  multiplexor :: RPCMultiplexer
  promises :: "LazyPromise list"
  reactions :: "(jsv \<times> handler_promise) list"
  applied :: "(string \<times> string \<times> jsv) list"

definition constructor :: "RPCProtocolImpl" where
  "constructor =
     \<lparr>isDisposed = False, locals = Map.empty, proxies = Map.empty, lastMessageId = 0,
      invokedHandlers = Map.empty, pendingRPCReplies = Map.empty,
      multiplexor = \<lparr>messagesToSend = [], immediates = 0, connection = []\<rparr>,
      promises = [], reactions = [], applied = []\<rparr>"

text \<open>
  The \<^verbatim>\<open>get\<close> trap of \<^verbatim>\<open>createProxy\<close>, on the target of the proxy. \<^verbatim>\<open>charCodeAt(0)\<close> of the
  empty name is \<^verbatim>\<open>NaN\<close>.
\<close>

definition handler_get :: "string \<Rightarrow> target \<Rightarrow> string \<Rightarrow> remote_function option \<times> target" where
  "handler_get proxyId tgt nm =
     (let tgt1 =
        (if tgt nm = None \<and> nm \<noteq> [] \<and> (of_char (hd nm) :: nat) = 36
         then tgt(nm \<mapsto> RemoteFunction proxyId nm) else tgt)
      in (tgt1 nm, tgt1))"

definition createProxy :: "string \<Rightarrow> target" where
  "createProxy proxyId = Map.empty"

text \<open>\<^verbatim>\<open>getProxy\<close> returns the proxy of the table; it is named here by its key.\<close>

definition getProxy :: "ProxyIdentifier \<Rightarrow> RPCProtocolImpl \<Rightarrow> string \<times> RPCProtocolImpl" where
  "getProxy proxyId s =
     (let k = identifier_id proxyId;
          s1 = (if proxies s k = None then s\<lparr>proxies := (proxies s)(k \<mapsto> createProxy k)\<rparr> else s)
      in (k, s1))"

text \<open>
  Reading property \<open>nm\<close> of the proxy with key \<open>k\<close>: the trap runs on its target. No proxy
  exists under a key that \<^verbatim>\<open>getProxy\<close> has not returned.
\<close>

definition proxy_get ::
  "string \<Rightarrow> string \<Rightarrow> RPCProtocolImpl \<Rightarrow> remote_function option \<times> RPCProtocolImpl" where
  "proxy_get k nm s =
     (case proxies s k of
        None \<Rightarrow> (None, s)
      | Some tgt \<Rightarrow>
          (let (r, tgt1) = handler_get k tgt nm in (r, s\<lparr>proxies := (proxies s)(k \<mapsto> tgt1)\<rparr>)))"

text \<open>
  \<^verbatim>\<open>++this.lastMessageId\<close> on a JavaScript number: exact below \<open>2 ^ 53\<close>, and \<open>2 ^ 53 + 1\<close>
  rounds back to \<open>2 ^ 53\<close>. Starting from 0 the counter holds no other value.
\<close>

definition js_increment :: "nat \<Rightarrow> nat" where
  "js_increment n = (if n < 2 ^ 53 then n + 1 else n)"

datatype call_result = PromiseReject Error | Deferred nat

definition remoteCall ::
  "jsv \<Rightarrow> string \<Rightarrow> string \<Rightarrow> json list \<Rightarrow> RPCProtocolImpl \<Rightarrow> call_result \<times> RPCProtocolImpl" where
  "remoteCall tr proxyId methodName args s =
     (if isDisposed s then (PromiseReject (canceled tr), s)
      else
        (let n = js_increment (lastMessageId s);
             callId = decimal n;
             result = length (promises s);
             s1 = s\<lparr>lastMessageId := n, promises := promises s @ [Pending]\<rparr>;
             s2 = s1\<lparr>pendingRPCReplies := (pendingRPCReplies s1)(callId \<mapsto> result)\<rparr>;
             s3 = s2\<lparr>multiplexor := send (request callId proxyId methodName args) (multiplexor s2)\<rparr>
         in (Deferred result, s3)))"

text \<open>Calling what a property read of a proxy gave, with the arguments \<open>myArgs\<close>.\<close>

fun call_remote ::
  "jsv \<Rightarrow> remote_function \<Rightarrow> json list \<Rightarrow> RPCProtocolImpl \<Rightarrow> call_result \<times> RPCProtocolImpl" where
  "call_remote tr (RemoteFunction proxyId nm) myArgs s = remoteCall tr proxyId nm myArgs s"

definition doInvokeHandler ::
  "jsv \<Rightarrow> jsv \<Rightarrow> jsv \<Rightarrow> jsv \<Rightarrow> RPCProtocolImpl \<Rightarrow> outcome \<times> RPCProtocolImpl" where
  "doInvokeHandler tr proxyId methodName args s =
     (case locals s (toString proxyId) of
        None \<Rightarrow> (Throws (ThrownError (new_Error tr (''Unknown actor '' @ toString proxyId))), s)
      | Some actor \<Rightarrow>
          (case actor (toString methodName) of
             Some (Method f) \<Rightarrow>
               (f args,
                s\<lparr>applied := applied s @ [(toString proxyId, toString methodName, args)]\<rparr>)
           | _ \<Rightarrow>
               (Throws (ThrownError (new_Error tr
                  (''Unknown method '' @ toString methodName @ '' on actor '' @ toString proxyId))),
                s)))"

definition invokeHandler ::
  "jsv \<Rightarrow> jsv \<Rightarrow> jsv \<Rightarrow> jsv \<Rightarrow> RPCProtocolImpl \<Rightarrow> handler_promise \<times> RPCProtocolImpl" where
  "invokeHandler tr proxyId methodName args s =
     (case doInvokeHandler tr proxyId methodName args s of
        (Returns v, s1) \<Rightarrow> (Fulfills v, s1)
      | (ReturnsPromise p, s1) \<Rightarrow> (p, s1)
      | (Throws err, s1) \<Rightarrow> (Rejects err, s1))"

text \<open>
  The three message classes. The cast of \<^verbatim>\<open>receiveOneMessage\<close> checks nothing, so a field
  holds whatever the parsed object has under that name.
\<close>

record RequestMessage =
  req_id :: jsv
  req_proxyId :: jsv
  req_method :: jsv
  req_args :: jsv

record ReplyMessage =
  reply_id :: jsv
  reply_res :: jsv

record ReplyErrMessage =
  replyErr_id :: jsv
  replyErr_err :: jsv

definition receiveRequest :: "jsv \<Rightarrow> RequestMessage \<Rightarrow> RPCProtocolImpl \<Rightarrow> RPCProtocolImpl" where
  "receiveRequest tr msg s =
     (let callId = req_id msg;
          proxyId = req_proxyId msg;
          (p, s1) = invokeHandler tr proxyId (req_method msg) (req_args msg) s;
          s2 = s1\<lparr>invokedHandlers := (invokedHandlers s1)(toString callId \<mapsto> p)\<rparr>
      in s2\<lparr>reactions := reactions s2 @ [(callId, p)]\<rparr>)"

text \<open>
  The event loop runs the callback at position \<open>i\<close> of \<open>reactions\<close> once its promise has
  settled: the first function of \<^verbatim>\<open>then\<close> for a fulfilled promise, the second for a
  rejected one. A callback runs once.
\<close>

definition runReaction :: "nat \<Rightarrow> RPCProtocolImpl \<Rightarrow> RPCProtocolImpl" where
  "runReaction i s =
     (if i < length (reactions s) then
        (let (callId, p) = reactions s ! i;
             s1 = s\<lparr>reactions := take i (reactions s) @ drop (Suc i) (reactions s)\<rparr>
         in case p of
              NeverSettles \<Rightarrow> s
            | Fulfills r \<Rightarrow>
                (let s2 = s1\<lparr>invokedHandlers := (invokedHandlers s1)(toString callId := None)\<rparr>
                 in s2\<lparr>multiplexor := send (replyOK (toString callId) r) (multiplexor s2)\<rparr>)
            | Rejects err \<Rightarrow>
                (let s2 = s1\<lparr>invokedHandlers := (invokedHandlers s1)(toString callId := None)\<rparr>
                 in s2\<lparr>multiplexor := send (replyErr (toString callId) err) (multiplexor s2)\<rparr>))
      else s)"

definition receiveReply :: "ReplyMessage \<Rightarrow> RPCProtocolImpl \<Rightarrow> RPCProtocolImpl" where
  "receiveReply msg s =
     (let callId = toString (reply_id msg) in
      case pendingRPCReplies s callId of
        None \<Rightarrow> s
      | Some pendingReply \<Rightarrow>
          (let s1 = s\<lparr>pendingRPCReplies := (pendingRPCReplies s)(callId := None)\<rparr>
           in s1\<lparr>promises :=
                 (promises s1)[pendingReply := resolveOk (reply_res msg) (promises s1 ! pendingReply)]\<rparr>))"

definition receiveReplyErr :: "ReplyErrMessage \<Rightarrow> RPCProtocolImpl \<Rightarrow> RPCProtocolImpl" where
  "receiveReplyErr msg s =
     (let callId = toString (replyErr_id msg) in
      case pendingRPCReplies s callId of
        None \<Rightarrow> s
      | Some pendingReply \<Rightarrow>
          (let s1 = s\<lparr>pendingRPCReplies := (pendingRPCReplies s)(callId := None)\<rparr>;
               err =
                 (case replyErr_err msg of
                    None \<Rightarrow> None
                  | Some e \<Rightarrow>
                      if truthy (Some e) \<and> truthy (property e ''$isError'')
                      then Some \<lparr>name = property e ''name'', message = property e ''message'',
                                 stack = property e ''stack'', stacktrace = None\<rparr>
                      else None)
           in s1\<lparr>promises :=
                 (promises s1)[pendingReply := resolveErr err (promises s1 ! pendingReply)]\<rparr>))"

text \<open>
  \<^verbatim>\<open>receiveOneMessage\<close> fails where \<^verbatim>\<open>JSON.parse\<close> fails, and with a \<^verbatim>\<open>TypeError\<close> where the
  text is \<^verbatim>\<open>null\<close>, whose \<^verbatim>\<open>type\<close> cannot be read. The \<^verbatim>\<open>switch\<close> compares with \<^verbatim>\<open>===\<close>.
\<close>

datatype failure = ParseFailure parse_error | TypeError

definition receiveOneMessage :: "jsv \<Rightarrow> string \<Rightarrow> RPCProtocolImpl \<Rightarrow> failure + RPCProtocolImpl" where
  "receiveOneMessage tr rawmsg s =
     (if isDisposed s then Inr s
      else
        (case JSON_parse rawmsg of
           Inl e \<Rightarrow> Inl (ParseFailure e)
         | Inr JNull \<Rightarrow> Inl TypeError
         | Inr msg \<Rightarrow>
             if property msg ''type'' = Some (JNumber (int (MessageType_value Request))) then
               Inr (receiveRequest tr
                 \<lparr>req_id = property msg ''id'', req_proxyId = property msg ''proxyId'',
                  req_method = property msg ''method'', req_args = property msg ''args''\<rparr> s)
             else if property msg ''type'' = Some (JNumber (int (MessageType_value Reply))) then
               Inr (receiveReply
                 \<lparr>reply_id = property msg ''id'', reply_res = property msg ''res''\<rparr> s)
             else if property msg ''type'' = Some (JNumber (int (MessageType_value ReplyErr))) then
               Inr (receiveReplyErr
                 \<lparr>replyErr_id = property msg ''id'', replyErr_err = property msg ''err''\<rparr> s)
             else Inr s))"

text \<open>
  The listener that the multiplexer puts on \<^verbatim>\<open>connection.onMessage\<close>: the messages of a
  batch in order, stopping where one fails.
\<close>

fun onMessage :: "jsv \<Rightarrow> string list \<Rightarrow> RPCProtocolImpl \<Rightarrow> failure + RPCProtocolImpl" where
  "onMessage tr [] s = Inr s"
| "onMessage tr (m # ms) s =
     (case receiveOneMessage tr m s of Inl e \<Rightarrow> Inl e | Inr s1 \<Rightarrow> onMessage tr ms s1)"

subsection \<open>Invariants of the tables\<close>

text \<open>
  The target of a proxy made by \<^verbatim>\<open>createProxy\<close> for key \<open>k\<close>: whatever it holds was put
  there by the \<^verbatim>\<open>get\<close> trap.
\<close>

definition synthesized :: "string \<Rightarrow> target \<Rightarrow> bool" where
  "synthesized k tgt =
     (\<forall>nm f. tgt nm = Some f \<longrightarrow> nm \<noteq> [] \<and> hd nm = CHR ''$'' \<and> f = RemoteFunction k nm)"

text \<open>
  Every key of \<open>pendingRPCReplies\<close> is the decimal form of a counter value already passed.
\<close>

definition ids_allocated :: "RPCProtocolImpl \<Rightarrow> bool" where
  "ids_allocated s = (dom (pendingRPCReplies s) \<subseteq> decimal ` {1..lastMessageId s})"

text \<open>
  An instance with two calls outstanding whose flag \<open>isDisposed\<close> is set. The class has
  no method that sets it; the state is written down directly.
\<close>

definition disposed_with_two_outstanding :: RPCProtocolImpl where
  "disposed_with_two_outstanding =
     (snd (remoteCall None ''mService'' ''$greet'' []
        (snd (remoteCall None ''mService'' ''$greet'' [] constructor))))\<lparr>isDisposed := True\<rparr>"

subsection \<open>Shapes of JSON text\<close>

text \<open>What may follow a number, and what a value may start with.\<close>

definition number_end :: "string \<Rightarrow> bool" where
  "number_end rest =
     (case rest of [] \<Rightarrow> True
      | c # cs \<Rightarrow> \<not> is_digit c \<and> c \<noteq> CHR ''.'' \<and> c \<noteq> CHR ''e'' \<and> c \<noteq> CHR ''E'')"

definition value_start :: "char \<Rightarrow> bool" where
  "value_start c =
     (c = CHR ''{'' \<or> c = CHR ''['' \<or> c = CHR 0x22 \<or> c = CHR ''-'' \<or> is_digit c
      \<or> c = CHR ''t'' \<or> c = CHR ''f'' \<or> c = CHR ''n'')"

text \<open>
  A string that a JSON string literal can hold as it is: no quote, no backslash and no
  code unit below 32.
\<close>

definition plain :: "string \<Rightarrow> bool" where
  "plain s = list_all (\<lambda>c. c \<noteq> CHR 0x22 \<and> c \<noteq> CHR 0x5C \<and> 32 \<le> (of_char c :: nat)) s"

text \<open>The object that the text of a Request stands for.\<close>

definition request_object :: "string \<Rightarrow> string \<Rightarrow> string \<Rightarrow> json list \<Rightarrow> json" where
  "request_object req rpcId method args =
     JObject [(''type'', JNumber 1), (''id'', JString req), (''proxyId'', JString rpcId),
       (''method'', JString method), (''args'', JArray args)]"

text \<open>The object that the text of a ReplyErr for an instance of \<^verbatim>\<open>Error\<close> stands for.\<close>

definition replyErr_object :: "string \<Rightarrow> SerializedError \<Rightarrow> json" where
  "replyErr_object req e =
     JObject [(''type'', JNumber 3), (''id'', JString req), (''err'', SerializedError_json e)]"


section \<open>Verification\<close>

subsection \<open>Decimal numerals\<close>

lemma digit_char_simps:
  "digit_char 0 = CHR ''0''" "digit_char 1 = CHR ''1''" "digit_char 2 = CHR ''2''"
  "digit_char 3 = CHR ''3''" "digit_char 4 = CHR ''4''" "digit_char 5 = CHR ''5''"
  "digit_char 6 = CHR ''6''" "digit_char 7 = CHR ''7''" "digit_char 8 = CHR ''8''"
  "digit_char 9 = CHR ''9''" "digit_char (Suc 0) = CHR ''1''"
  by code_simp+

lemma decimal_1: "decimal 1 = ''1''"
  by (simp add: decimal.simps digit_char_simps)

lemma decimal_Suc_0: "decimal (Suc 0) = ''1''"
  by (simp add: decimal.simps digit_char_simps)

lemma decimal_2: "decimal 2 = ''2''"
  by (simp add: decimal.simps digit_char_simps)

lemma decimal_3: "decimal 3 = ''3''"
  by (simp add: decimal.simps digit_char_simps)

lemma decimal_limit: "decimal 9007199254740992 = ''9007199254740992''"
  by (simp add: decimal.simps digit_char_simps)

lemma digit_val_digit_char: "d < 10 \<Longrightarrow> digit_val (digit_char d) = d"
  by (simp add: digit_val_def digit_char_def)

lemma number_of_digits_snoc:
  "number_of_digits (ds @ [c]) = 10 * number_of_digits ds + digit_val c"
  by (simp add: number_of_digits_def)

lemma number_of_digits_decimal: "number_of_digits (decimal n) = n"
proof (induction n rule: decimal.induct)
  case (1 n)
  show ?case
  proof (cases "n < 10")
    case True
    then show ?thesis
      by (subst decimal.simps) (simp add: number_of_digits_def digit_val_digit_char)
  next
    case False
    with 1 show ?thesis
      by (subst decimal.simps) (simp add: number_of_digits_snoc digit_val_digit_char)
  qed
qed

lemma decimal_inj: "decimal i = decimal j \<Longrightarrow> i = j"
  by (metis number_of_digits_decimal)

subsection \<open>The multiplexer\<close>











subsection \<open>Proxies\<close>

lemma dollar_code: "((of_char c :: nat) = 36) = (c = CHR ''$'')"
proof -
  have "(of_char c :: nat) = of_char (CHR ''$'') \<longleftrightarrow> c = CHR ''$''"
    by (rule of_char_eq_iff)
  then show ?thesis by simp
qed

lemma synthesized_createProxy: "synthesized k (createProxy k)"
  by (simp add: synthesized_def createProxy_def)

lemma synthesized_handler_get:
  "synthesized k tgt \<Longrightarrow> synthesized k (snd (handler_get k tgt nm))"
  by (auto simp: synthesized_def handler_get_def Let_def dollar_code)

lemma handler_get_other:
  assumes "synthesized k tgt" and "nm = [] \<or> hd nm \<noteq> CHR ''$''"
  shows "handler_get k tgt nm = (None, tgt)"
proof -
  have "tgt nm = None"
  proof (cases "tgt nm")
    case None
    then show ?thesis .
  next
    case (Some f)
    with assms show ?thesis by (auto simp: synthesized_def)
  qed
  with assms(2) show ?thesis
    by (auto simp: handler_get_def Let_def dollar_code)
qed

lemma handler_get_dollar:
  assumes "synthesized k tgt" and "nm \<noteq> []" and "hd nm = CHR ''$''"
  shows "fst (handler_get k tgt nm) = Some (RemoteFunction k nm)"
  using assms by (cases "tgt nm") (auto simp: handler_get_def Let_def dollar_code synthesized_def)

text \<open>
  C10. On a synthesized proxy, reading a property whose name does not start with the
  dollar sign gives \<^verbatim>\<open>undefined\<close> and leaves the whole state as it is: no call id, no
  pending entry, nothing queued for sending. Reading a name that starts with the dollar
  sign gives the function bound to that proxy and name, changes nothing but the target of
  the proxy, and calling the function is \<open>remoteCall\<close>.
\<close>

theorem proxy_get_only_dollar_names:
  assumes "proxies s k = Some tgt" and "synthesized k tgt"
  shows "((nm = [] \<or> hd nm \<noteq> CHR ''$'') \<longrightarrow> proxy_get k nm s = (None, s))
    \<and> (nm \<noteq> [] \<and> hd nm = CHR ''$'' \<longrightarrow>
         fst (proxy_get k nm s) = Some (RemoteFunction k nm)
         \<and> snd (proxy_get k nm s) = s\<lparr>proxies := proxies (snd (proxy_get k nm s))\<rparr>
         \<and> (\<forall>tr myArgs s'.
               call_remote tr (RemoteFunction k nm) myArgs s' = remoteCall tr k nm myArgs s'))"
proof (intro conjI impI)
  assume "nm = [] \<or> hd nm \<noteq> CHR ''$''"
  then have "handler_get k tgt nm = (None, tgt)"
    using assms(2) by (rule handler_get_other[rotated])
  moreover have "s\<lparr>proxies := (proxies s)(k \<mapsto> tgt)\<rparr> = s"
    using assms(1) by (simp add: map_upd_triv)
  ultimately show "proxy_get k nm s = (None, s)"
    using assms(1) by (simp add: proxy_get_def)
next
  assume d: "nm \<noteq> [] \<and> hd nm = CHR ''$''"
  then have "fst (handler_get k tgt nm) = Some (RemoteFunction k nm)"
    using assms(2) by (simp add: handler_get_dollar)
  then show "fst (proxy_get k nm s) = Some (RemoteFunction k nm)"
    using assms(1) by (auto simp: proxy_get_def split: prod.splits)
  show "snd (proxy_get k nm s) = s\<lparr>proxies := proxies (snd (proxy_get k nm s))\<rparr>"
    using assms(1) by (simp add: proxy_get_def split: prod.splits)
  show "\<forall>tr myArgs s'.
          call_remote tr (RemoteFunction k nm) myArgs s' = remoteCall tr k nm myArgs s'"
    by simp
qed

theorem proxy_get_only_dollar_names_witness:
  "proxy_get ''mService'' ''greet''
       (snd (getProxy (createMainProxyIdentifier ''Service'') constructor))
     = (None, snd (getProxy (createMainProxyIdentifier ''Service'') constructor))
   \<and> fst (proxy_get ''mService'' ''$greet''
       (snd (getProxy (createMainProxyIdentifier ''Service'') constructor)))
     = Some (RemoteFunction ''mService'' ''$greet'')"
proof -
  let ?s = "snd (getProxy (createMainProxyIdentifier ''Service'') constructor)"
  have p: "proxies ?s ''mService'' = Some (createProxy ''mService'')"
    by (simp add: getProxy_def createMainProxyIdentifier_def constructor_def Let_def)
  show ?thesis
    using proxy_get_only_dollar_names [OF p synthesized_createProxy, of "''greet''"]
      proxy_get_only_dollar_names [OF p synthesized_createProxy, of "''$greet''"]
    by simp
qed

subsection \<open>Replies\<close>

lemma receiveReply_absent:
  "pendingRPCReplies s (toString (reply_id msg)) = None \<Longrightarrow> receiveReply msg s = s"
  by (simp add: receiveReply_def)

lemma receiveReplyErr_absent:
  "pendingRPCReplies s (toString (replyErr_id msg)) = None \<Longrightarrow> receiveReplyErr msg s = s"
  by (simp add: receiveReplyErr_def)

text \<open>
  C8. A Reply or a ReplyErr whose call id has no entry in \<open>pendingRPCReplies\<close>:
  \<open>receiveReply\<close> and \<open>receiveReplyErr\<close> return, and the state they return is the state
  they were given (no promise settled, no entry added or removed, nothing sent).
\<close>

theorem stray_reply_ignored:
  "(pendingRPCReplies s (toString (reply_id m)) = None \<longrightarrow> receiveReply m s = s)
   \<and> (pendingRPCReplies s (toString (replyErr_id e)) = None \<longrightarrow> receiveReplyErr e s = s)"
  by (simp add: receiveReply_def receiveReplyErr_def)

theorem stray_reply_ignored_witness:
  "receiveReply \<lparr>reply_id = Some (JString ''7''), reply_res = None\<rparr> constructor = constructor
   \<and> receiveReplyErr \<lparr>replyErr_id = Some (JString ''7''), replyErr_err = Some JNull\<rparr> constructor
       = constructor"
  using stray_reply_ignored [of constructor "\<lparr>reply_id = Some (JString ''7''), reply_res = None\<rparr>"
      "\<lparr>replyErr_id = Some (JString ''7''), replyErr_err = Some JNull\<rparr>"]
  by (simp add: constructor_def)

subsection \<open>Requests\<close>

lemma receiveRequest_eq:
  "receiveRequest tr msg s =
     s\<lparr>applied := applied (snd (invokeHandler tr (req_proxyId msg) (req_method msg) (req_args msg) s)),
       invokedHandlers := (invokedHandlers s)(toString (req_id msg) \<mapsto>
          fst (invokeHandler tr (req_proxyId msg) (req_method msg) (req_args msg) s)),
       reactions := reactions s @ [(req_id msg,
          fst (invokeHandler tr (req_proxyId msg) (req_method msg) (req_args msg) s))]\<rparr>"
  by (simp add: receiveRequest_def invokeHandler_def doInvokeHandler_def Let_def
      split: option.splits member.splits outcome.splits)




lemma replyErr_new_Error:
  \<open>replyErr c (ThrownError (new_Error tr txt)) =
     ''{"type":3,"id":"'' @ c @ ''","err":''
       @ JSON_stringify (JObject ([(''$isError'', JBool True), (''name'', JString ''Error''),
            (''message'', JString txt)] @ optional_property ''stack'' tr)) @ ''}''\<close>
  by (simp add: new_Error_def decimal_3 SerializedError_json_def optional_property_def)

subsection \<open>Disposal\<close>

lemma remoteCall_live:
  "\<not> isDisposed s \<Longrightarrow>
   remoteCall tr p m a s =
     (Deferred (length (promises s)),
      s\<lparr>lastMessageId := js_increment (lastMessageId s),
        promises := promises s @ [Pending],
        pendingRPCReplies := (pendingRPCReplies s)
          (decimal (js_increment (lastMessageId s)) \<mapsto> length (promises s)),
        multiplexor := send (request (decimal (js_increment (lastMessageId s))) p m a)
          (multiplexor s)\<rparr>)"
  by (simp add: remoteCall_def Let_def)

lemma remoteCall_disposed:
  "isDisposed s \<Longrightarrow> remoteCall tr p m a s = (PromiseReject (canceled tr), s)"
  by (simp add: remoteCall_def)

lemma isDisposed_getProxy: "isDisposed (snd (getProxy i s)) = isDisposed s"
  by (simp add: getProxy_def Let_def)

lemma isDisposed_proxy_get: "isDisposed (snd (proxy_get k nm s)) = isDisposed s"
  by (simp add: proxy_get_def split: option.splits prod.splits)

lemma isDisposed_remoteCall: "isDisposed (snd (remoteCall tr p m a s)) = isDisposed s"
  by (simp add: remoteCall_def Let_def)

lemma isDisposed_receiveRequest: "isDisposed (receiveRequest tr msg s) = isDisposed s"
  by (simp add: receiveRequest_eq)

lemma isDisposed_receiveReply: "isDisposed (receiveReply msg s) = isDisposed s"
  by (simp add: receiveReply_def Let_def split: option.splits)

lemma isDisposed_receiveReplyErr: "isDisposed (receiveReplyErr msg s) = isDisposed s"
  by (simp add: receiveReplyErr_def Let_def split: option.splits)

lemma isDisposed_receiveOneMessage:
  "receiveOneMessage tr raw s = Inr s' \<Longrightarrow> isDisposed s' = isDisposed s"
  by (auto simp: receiveOneMessage_def isDisposed_receiveRequest isDisposed_receiveReply
      isDisposed_receiveReplyErr split: if_splits sum.splits json.splits)

lemma isDisposed_onMessage:
  "onMessage tr ms s = Inr s' \<Longrightarrow> isDisposed s' = isDisposed s"
  by (induction ms arbitrary: s) (auto split: sum.splits dest: isDisposed_receiveOneMessage)

lemma isDisposed_runReaction: "isDisposed (runReaction i s) = isDisposed s"
  by (simp add: runReaction_def Let_def split: prod.splits handler_promise.splits)

text \<open>
  C1, as amended. No method of the class changes \<open>isDisposed\<close>, which is false after the
  constructor; nothing cancels an outstanding call. In a state whose flag is set, every
  \<open>remoteCall\<close> rejects at once with the error \<^verbatim>\<open>Canceled\<close> and leaves the state as it is
  (no entry in either table, nothing given to the multiplexer), and \<open>receiveOneMessage\<close>
  ignores every message.
\<close>

theorem disposed_flag:
  "isDisposed (snd (getProxy i s)) = isDisposed s
   \<and> isDisposed (snd (proxy_get k nm s)) = isDisposed s
   \<and> isDisposed (snd (remoteCall tr p m a s)) = isDisposed s
   \<and> (\<forall>s'. onMessage tr ms s = Inr s' \<longrightarrow> isDisposed s' = isDisposed s)
   \<and> isDisposed (runReaction j s) = isDisposed s
   \<and> \<not> isDisposed constructor
   \<and> (isDisposed s \<longrightarrow>
        remoteCall tr p m a s = (PromiseReject (canceled tr), s)
        \<and> name (canceled tr) = Some (JString ''Canceled'')
        \<and> message (canceled tr) = Some (JString ''Canceled'')
        \<and> receiveOneMessage tr raw s = Inr s)"
  by (simp add: isDisposed_getProxy isDisposed_proxy_get isDisposed_remoteCall
      isDisposed_runReaction remoteCall_disposed canceled_def new_Error_def Let_def
      receiveOneMessage_def constructor_def)
    (blast dest: isDisposed_onMessage)

lemma js_increment_0: "js_increment 0 = 1"
  by (simp add: js_increment_def)

lemma js_increment_1: "js_increment (Suc 0) = 2"
  by (simp add: js_increment_def)

lemma disposed_with_two_outstanding_eq:
  "disposed_with_two_outstanding =
     constructor\<lparr>isDisposed := True, lastMessageId := 2, promises := [Pending, Pending],
       pendingRPCReplies := [''1'' \<mapsto> 0, ''2'' \<mapsto> 1],
       multiplexor := \<lparr>messagesToSend =
           [request ''1'' ''mService'' ''$greet'' [], request ''2'' ''mService'' ''$greet'' []],
         immediates = 1, connection = []\<rparr>\<rparr>"
  by (simp add: disposed_with_two_outstanding_def remoteCall_def Let_def constructor_def
      js_increment_0 js_increment_1 decimal_Suc_0 decimal_2 send_def)

text \<open>
  C1 fails as stated: with the flag set and two calls outstanding, both Deferred Results
  are still pending, they stay pending when a further \<open>remoteCall\<close> is rejected, and the
  Reply to the first call is ignored.
\<close>

theorem disposal_counterexample:
  "isDisposed disposed_with_two_outstanding
   \<and> pendingRPCReplies disposed_with_two_outstanding ''1'' = Some 0
   \<and> pendingRPCReplies disposed_with_two_outstanding ''2'' = Some 1
   \<and> promises disposed_with_two_outstanding = [Pending, Pending]
   \<and> promises (snd (remoteCall None ''mService'' ''$greet'' [] disposed_with_two_outstanding))
       = [Pending, Pending]
   \<and> receiveOneMessage None (replyOK ''1'' None) disposed_with_two_outstanding
       = Inr disposed_with_two_outstanding"
  by (simp add: disposed_with_two_outstanding_eq remoteCall_def receiveOneMessage_def)

theorem disposed_flag_witness:
  "isDisposed disposed_with_two_outstanding
   \<and> remoteCall None ''mService'' ''$greet'' [] disposed_with_two_outstanding
       = (PromiseReject (canceled None), disposed_with_two_outstanding)"
proof -
  have d: "isDisposed disposed_with_two_outstanding"
    by (simp add: disposed_with_two_outstanding_eq)
  show ?thesis
    using d disposed_flag [of _ disposed_with_two_outstanding _ _ None "''mService''" "''$greet''" "[]"]
    by blast
qed

subsection \<open>Call ids\<close>

lemma ids_allocated_constructor: "ids_allocated constructor"
  by (simp add: ids_allocated_def constructor_def)

lemma ids_allocated_fresh:
  assumes "ids_allocated s"
  shows "pendingRPCReplies s (decimal (lastMessageId s + 1)) = None"
proof (rule ccontr)
  assume "pendingRPCReplies s (decimal (lastMessageId s + 1)) \<noteq> None"
  then have "decimal (lastMessageId s + 1) \<in> dom (pendingRPCReplies s)"
    by auto
  with assms obtain n where "n \<in> {1..lastMessageId s}" "decimal (lastMessageId s + 1) = decimal n"
    by (auto simp: ids_allocated_def)
  then show False
    by (auto dest: decimal_inj)
qed

lemma ids_allocated_remoteCall:
  assumes "ids_allocated s" and "lastMessageId s < 2 ^ 53"
  shows "ids_allocated (snd (remoteCall tr p m a s))"
proof (cases "isDisposed s")
  case True
  with assms show ?thesis by (simp add: remoteCall_disposed)
next
  case False
  have "decimal ` {1..lastMessageId s} \<subseteq> decimal ` {1..Suc (lastMessageId s)}"
    by (rule image_mono) auto
  with assms False show ?thesis
    by (auto simp: remoteCall_live ids_allocated_def js_increment_def)
qed

lemma receiveReply_present:
  "pendingRPCReplies s (toString (reply_id msg)) = Some r \<Longrightarrow>
   receiveReply msg s =
     s\<lparr>pendingRPCReplies := (pendingRPCReplies s)(toString (reply_id msg) := None),
       promises := (promises s)[r := resolveOk (reply_res msg) (promises s ! r)]\<rparr>"
  by (simp add: receiveReply_def Let_def)

lemma receiveReply_removes:
  "pendingRPCReplies (receiveReply msg s) (toString (reply_id msg)) = None"
  by (simp add: receiveReply_def Let_def split: option.splits)

lemma receiveReplyErr_removes:
  "pendingRPCReplies (receiveReplyErr msg s) (toString (replyErr_id msg)) = None"
  by (simp add: receiveReplyErr_def Let_def split: option.splits)

lemma receiveReply_twice: "receiveReply msg (receiveReply msg s) = receiveReply msg s"
  by (simp add: receiveReply_absent receiveReply_removes)

lemma receiveReplyErr_twice: "receiveReplyErr msg (receiveReplyErr msg s) = receiveReplyErr msg s"
  by (simp add: receiveReplyErr_absent receiveReplyErr_removes)

lemma receiveReplyErr_after_Reply:
  "replyErr_id e = reply_id msg \<Longrightarrow> receiveReplyErr e (receiveReply msg s) = receiveReply msg s"
  by (simp add: receiveReplyErr_absent receiveReply_removes)

lemma receiveReply_after_ReplyErr:
  "reply_id msg = replyErr_id e \<Longrightarrow> receiveReply msg (receiveReplyErr e s) = receiveReplyErr e s"
  by (simp add: receiveReply_absent receiveReplyErr_removes)

lemma lastMessageId_receiveReply: "lastMessageId (receiveReply msg s) = lastMessageId s"
  by (simp add: receiveReply_def Let_def split: option.splits)

lemma lastMessageId_receiveReplyErr: "lastMessageId (receiveReplyErr msg s) = lastMessageId s"
  by (simp add: receiveReplyErr_def Let_def split: option.splits)

lemma lastMessageId_receiveRequest: "lastMessageId (receiveRequest tr msg s) = lastMessageId s"
  by (simp add: receiveRequest_eq)

lemma lastMessageId_runReaction: "lastMessageId (runReaction i s) = lastMessageId s"
  by (simp add: runReaction_def Let_def split: prod.splits handler_promise.splits)

lemma lastMessageId_receiveOneMessage:
  "receiveOneMessage tr raw s = Inr s' \<Longrightarrow> lastMessageId s' = lastMessageId s"
  by (auto simp: receiveOneMessage_def lastMessageId_receiveRequest lastMessageId_receiveReply
      lastMessageId_receiveReplyErr split: if_splits sum.splits json.splits)

lemma lastMessageId_onMessage:
  "onMessage tr ms s = Inr s' \<Longrightarrow> lastMessageId s' = lastMessageId s"
  by (induction ms arbitrary: s) (auto split: sum.splits dest: lastMessageId_receiveOneMessage)

lemma lastMessageId_getProxy: "lastMessageId (snd (getProxy i s)) = lastMessageId s"
  by (simp add: getProxy_def Let_def)

lemma lastMessageId_proxy_get: "lastMessageId (snd (proxy_get k nm s)) = lastMessageId s"
  by (simp add: proxy_get_def split: option.splits prod.splits)

subsection \<open>\<^verbatim>\<open>JSON.parse\<close> after \<^verbatim>\<open>JSON.stringify\<close>\<close>

lemma skip_ws_start: "\<not> is_ws c \<Longrightarrow> skip_ws (c # cs) = c # cs"
  by simp

lemma hexval_hexdigit: "d < 16 \<Longrightarrow> hexval (hexdigit d) = Some d"
  by (auto simp: hexval_def hexdigit_def Let_def)

lemma char_of_of_char_nat: "char_of (of_char c :: nat) = c"
  by simp

lemma parse_chars_escape_char:
  "parse_chars (escape_char c @ cs) =
     and_then (parse_chars cs) (\<lambda>s rest. Parsed (c # s) rest)"
proof -
  consider (quote) "c = CHR 0x22" | (bs) "c = CHR 0x5C" | (b) "c = CHR 0x08" | (f) "c = CHR 0x0C"
    | (n) "c = CHR 0x0A" | (r) "c = CHR 0x0D" | (t) "c = CHR 0x09"
    | (u) "c \<notin> {CHR 0x22, CHR 0x5C, CHR 0x08, CHR 0x0C, CHR 0x0A, CHR 0x0D, CHR 0x09}"
        "of_char c < (32::nat)"
    | (plain) "c \<notin> {CHR 0x22, CHR 0x5C, CHR 0x08, CHR 0x0C, CHR 0x0A, CHR 0x0D, CHR 0x09}"
        "\<not> of_char c < (32::nat)"
    by blast
  then show ?thesis
  proof cases
    case u
    let ?n = "of_char c :: nat"
    have d: "?n div 16 < 16" "?n mod 16 < 16"
      using u(2) by simp_all
    have v: "(?n div 16) * 16 + ?n mod 16 = ?n"
      by simp
    have z: "hexval (CHR ''0'') = Some 0"
      by (simp add: hexval_def)
    show ?thesis
      using u d v by (simp add: escape_char_def hexval_hexdigit z)
  qed (simp_all add: escape_char_def unescape_def)
qed

lemma parse_chars_escaped:
  "parse_chars (concat (map escape_char s) @ CHR 0x22 # rest) = Parsed s rest"
  by (induction s) (simp_all add: parse_chars_escape_char and_then_def)

lemma parse_chars_quote: "parse_chars (tl (quote s) @ rest) = Parsed s rest"
  by (simp add: quote_def parse_chars_escaped)

lemma is_digit_digit_char: "d < 10 \<Longrightarrow> is_digit (digit_char d)"
  by (simp add: is_digit_def digit_char_def)

lemma digit_char_eq_0: "d < 10 \<Longrightarrow> (digit_char d = CHR ''0'') = (d = 0)"
proof -
  assume "d < 10"
  have "(digit_char d = CHR ''0'') = ((of_char (digit_char d) :: nat) = of_char (CHR ''0''))"
    by (simp only: of_char_eq_iff)
  also have "\<dots> = (d = 0)"
    using \<open>d < 10\<close> by (simp add: digit_char_def)
  finally show ?thesis .
qed

lemma decimal_digits: "\<forall>c \<in> set (decimal n). is_digit c"
proof (induction n rule: decimal.induct)
  case (1 n)
  then show ?case
    by (subst decimal.simps) (auto simp: is_digit_digit_char)
qed

lemma decimal_Cons: "\<exists>c cs. decimal n = c # cs \<and> is_digit c \<and> (c = CHR ''0'' \<longrightarrow> n = 0)"
proof (induction n rule: decimal.induct)
  case (1 n)
  show ?case
  proof (cases "n < 10")
    case True
    then show ?thesis
      by (subst decimal.simps) (simp add: is_digit_digit_char digit_char_eq_0)
  next
    case False
    with 1 obtain c cs where "decimal (n div 10) = c # cs" "is_digit c"
      "c = CHR ''0'' \<longrightarrow> n div 10 = 0"
      by blast
    with False show ?thesis
      by (subst decimal.simps) auto
  qed
qed

lemma decimal_0: "decimal 0 = ''0''"
  by (simp add: decimal.simps digit_char_simps)

lemma takeWhile_digits:
  "\<forall>c \<in> set ds. is_digit c \<Longrightarrow> number_end rest \<Longrightarrow>
   takeWhile is_digit (ds @ rest) = ds \<and> dropWhile is_digit (ds @ rest) = rest"
  by (induction ds) (auto simp: number_end_def split: list.splits)

lemma number_end_continues: "number_end rest \<Longrightarrow> \<not> continues_number rest"
  by (auto simp: number_end_def continues_number_def split: list.splits)

lemma is_digit_not_minus: "is_digit c \<Longrightarrow> c \<noteq> CHR ''-''"
  by (auto simp: is_digit_def)

lemma parse_number_decimal:
  assumes "n < 2 ^ 53" and "number_end rest"
  shows "parse_number (decimal n @ rest) = Parsed (JNumber (int n)) rest"
proof -
  obtain c cs where d: "decimal n = c # cs" "is_digit c" "c = CHR ''0'' \<longrightarrow> n = 0"
    using decimal_Cons by blast
  show ?thesis
  proof (cases "c = CHR ''0''")
    case True
    with d have "n = 0" by simp
    then show ?thesis
      using assms(2)
      by (simp add: decimal_0 parse_number_def is_digit_def number_of_digits_def digit_val_def
          number_end_continues)
  next
    case False
    have t: "takeWhile is_digit (decimal n @ rest) = decimal n"
      "dropWhile is_digit (decimal n @ rest) = rest"
      using takeWhile_digits [OF decimal_digits assms(2)] by simp_all
    have "parse_number (c # cs @ rest) = Parsed (JNumber (int n)) rest"
      unfolding parse_number_def
      using False d(2) assms t number_of_digits_decimal [of n] is_digit_not_minus [OF d(2)]
      by (simp add: d(1) number_end_continues Let_def)
    then show ?thesis by (simp add: d(1))
  qed
qed

lemma parse_number_decimal_int:
  assumes "\<bar>n\<bar> < 2 ^ 53" and "number_end rest"
  shows "parse_number (decimal_int n @ rest) = Parsed (JNumber n) rest"
proof (cases "n < 0")
  case False
  then have "parse_number (decimal (nat n) @ rest) = Parsed (JNumber (int (nat n))) rest"
    using assms by (intro parse_number_decimal) auto
  with False show ?thesis by (simp add: decimal_int_def)
next
  case True
  let ?m = "nat (- n)"
  have m: "?m < 2 ^ 53" "?m \<noteq> 0"
    using True assms(1) by auto
  obtain c cs where d: "decimal ?m = c # cs" "is_digit c" "c = CHR ''0'' \<longrightarrow> ?m = 0"
    using decimal_Cons by blast
  have t: "takeWhile is_digit (decimal ?m @ rest) = decimal ?m"
    "dropWhile is_digit (decimal ?m @ rest) = rest"
    using takeWhile_digits [OF decimal_digits assms(2)] by simp_all
  have "parse_number (CHR ''-'' # c # cs @ rest) = Parsed (JNumber (- int ?m)) rest"
    unfolding parse_number_def
    using d m t number_of_digits_decimal [of ?m] assms(2)
    by (simp add: d(1) number_end_continues Let_def)
  with True show ?thesis
    by (simp add: decimal_int_def d(1))
qed

lemma decimal_int_start:
  "\<exists>c cs. decimal_int n = c # cs \<and> (c = CHR ''-'' \<or> is_digit c)"
  using decimal_Cons [of "nat n"] by (auto simp: decimal_int_def)

lemma value_start_not:
  "value_start c \<Longrightarrow>
   \<not> is_ws c \<and> c \<noteq> CHR '']'' \<and> c \<noteq> CHR ''}'' \<and> c \<noteq> CHR '','' \<and> c \<noteq> CHR '':''"
  by (auto simp: value_start_def is_ws_def is_digit_def)

lemma is_digit_not_open:
  "c = CHR ''-'' \<or> is_digit c \<Longrightarrow> c \<noteq> CHR ''{'' \<and> c \<noteq> CHR ''['' \<and> c \<noteq> CHR 0x22"
  by (auto simp: is_digit_def)

lemma stringify_start: "\<exists>c cs. JSON_stringify v = c # cs \<and> value_start c"
proof (cases v)
  case (JNumber n)
  then show ?thesis
    using decimal_int_start [of n] by (auto simp: value_start_def)
qed (auto simp: value_start_def quote_def)

lemma stringify_elems_start:
  "xs \<noteq> [] \<Longrightarrow> \<exists>c cs. stringify_elems xs = c # cs \<and> value_start c"
proof (cases xs)
  case (Cons x ys)
  obtain c cs where "JSON_stringify x = c # cs" "value_start c"
    using stringify_start by blast
  with Cons show ?thesis
    by (cases ys) auto
qed simp

lemma stringify_members_start:
  "kvs \<noteq> [] \<Longrightarrow> \<exists>cs. stringify_members kvs = CHR 0x22 # cs"
proof (cases kvs)
  case (Cons kv ys)
  then show ?thesis
    by (cases kv; cases ys) (auto simp: quote_def)
qed simp

lemma parse_value_null: "parse_value (Suc f) (''null'' @ rest) = Parsed JNull rest"
  by (simp add: literal_def is_digit_def)

lemma parse_value_true: "parse_value (Suc f) (''true'' @ rest) = Parsed (JBool True) rest"
  by (simp add: literal_def is_digit_def)

lemma parse_value_false: "parse_value (Suc f) (''false'' @ rest) = Parsed (JBool False) rest"
  by (simp add: literal_def is_digit_def)

lemma parse_value_number:
  assumes "\<bar>n\<bar> < 2 ^ 53" and "number_end rest"
  shows "parse_value (Suc f) (decimal_int n @ rest) = Parsed (JNumber n) rest"
proof -
  obtain c cs where d: "decimal_int n = c # cs" "c = CHR ''-'' \<or> is_digit c"
    using decimal_int_start by blast
  have "parse_value (Suc f) (c # cs @ rest) = parse_number (c # cs @ rest)"
    using d(2) is_digit_not_open [OF d(2)] by auto
  then show ?thesis
    using parse_number_decimal_int [OF assms] by (simp add: d(1))
qed

lemma parse_value_string: "parse_value (Suc f) (quote s @ rest) = Parsed (JString s) rest"
  by (simp add: quote_def parse_chars_escaped and_then_def)

lemma parse_value_array:
  "parse_value (Suc f) (CHR ''['' # stringify_elems xs @ CHR '']'' # rest) =
     (if xs = [] then Parsed (JArray []) rest
      else and_then (parse_elems f (stringify_elems xs @ CHR '']'' # rest))
             (\<lambda>vs r. Parsed (JArray vs) r))"
proof (cases "xs = []")
  case True
  then show ?thesis by (simp add: is_ws_def)
next
  case False
  then obtain c cs where "stringify_elems xs = c # cs" "value_start c"
    using stringify_elems_start by blast
  with False show ?thesis
    using value_start_not [of c] by simp
qed

lemma parse_value_object:
  "parse_value (Suc f) (CHR ''{'' # stringify_members kvs @ CHR ''}'' # rest) =
     (if kvs = [] then Parsed (JObject []) rest
      else and_then (parse_members f (stringify_members kvs @ CHR ''}'' # rest))
             (\<lambda>ms r. Parsed (JObject (define_properties ms)) r))"
proof (cases "kvs = []")
  case True
  then show ?thesis by (simp add: is_ws_def)
next
  case False
  then obtain cs where "stringify_members kvs = CHR 0x22 # cs"
    using stringify_members_start by blast
  with False show ?thesis
    by (simp add: is_ws_def)
qed

lemma update_fresh: "k \<notin> fst ` set al \<Longrightarrow> AList.update k v al = al @ [(k, v)]"
  by (induction al) auto

lemma foldl_update_distinct:
  "distinct (map fst (acc @ ms)) \<Longrightarrow>
   foldl (\<lambda>al kv. AList.update (fst kv) (snd kv) al) acc ms = acc @ ms"
proof (induction ms arbitrary: acc)
  case Nil
  then show ?case by simp
next
  case (Cons kv ms)
  have "fst kv \<notin> fst ` set acc"
    using Cons.prems by auto
  then have u: "AList.update (fst kv) (snd kv) acc = acc @ [kv]"
    by (simp add: update_fresh)
  have "distinct (map fst ((acc @ [kv]) @ ms))"
    using Cons.prems by simp
  from Cons.IH [OF this] u show ?case by simp
qed

lemma define_properties_distinct:
  "distinct (map fst kvs) \<Longrightarrow> define_properties kvs = kvs"
  using foldl_update_distinct [of "[]" kvs] by (simp add: define_properties_def)

declare parse_value.simps [simp del]

lemma number_end_simps:
  "number_end []" "number_end (CHR '','' # r)" "number_end (CHR '']'' # r)"
  "number_end (CHR ''}'' # r)"
  by (simp_all add: number_end_def is_digit_def)

lemma stringify_length: "0 < length (JSON_stringify v)"
  using stringify_start [of v] by auto

lemma parse_stringify:
  "wf_json v \<longrightarrow> (\<forall>f rest. length (JSON_stringify v) \<le> Suc f \<longrightarrow> number_end rest \<longrightarrow>
      parse_value (Suc f) (JSON_stringify v @ rest) = Parsed v rest)"
  "xs \<noteq> [] \<longrightarrow> wf_elems xs \<longrightarrow> (\<forall>f rest. length (stringify_elems xs) \<le> f \<longrightarrow>
      parse_elems (Suc f) (stringify_elems xs @ CHR '']'' # rest) = Parsed xs rest)"
  "kvs \<noteq> [] \<longrightarrow> wf_members kvs \<longrightarrow> (\<forall>f rest. length (stringify_members kvs) \<le> f \<longrightarrow>
      parse_members (Suc f) (stringify_members kvs @ CHR ''}'' # rest) = Parsed kvs rest)"
proof (induction v and xs and kvs rule: JSON_stringify_stringify_elems_stringify_members.induct)
  case 1
  show ?case using parse_value_null by simp
next
  case (2 b)
  show ?case using parse_value_true parse_value_false by simp
next
  case (3 n)
  show ?case using parse_value_number by simp
next
  case (4 s)
  show ?case using parse_value_string by simp
next
  case (5 xs)
  show ?case
  proof (intro impI allI)
    fix f rest
    assume wf: "wf_json (JArray xs)" and len: "length (JSON_stringify (JArray xs)) \<le> Suc f"
    show "parse_value (Suc f) (JSON_stringify (JArray xs) @ rest) = Parsed (JArray xs) rest"
    proof (cases "xs = []")
      case True
      then show ?thesis using parse_value_array [of f xs rest] by simp
    next
      case False
      from len obtain g where g: "f = Suc g" "length (stringify_elems xs) \<le> g"
        by (cases f) auto
      have "parse_elems (Suc g) (stringify_elems xs @ CHR '']'' # rest) = Parsed xs rest"
        using 5 False wf g(2) by simp
      then show ?thesis
        using parse_value_array [of f xs rest] False g(1) by (simp add: and_then_def)
    qed
  qed
next
  case (6 kvs)
  show ?case
  proof (intro impI allI)
    fix f rest
    assume wf: "wf_json (JObject kvs)" and len: "length (JSON_stringify (JObject kvs)) \<le> Suc f"
    show "parse_value (Suc f) (JSON_stringify (JObject kvs) @ rest) = Parsed (JObject kvs) rest"
    proof (cases "kvs = []")
      case True
      then show ?thesis using parse_value_object [of f kvs rest] by simp
    next
      case False
      from len obtain g where g: "f = Suc g" "length (stringify_members kvs) \<le> g"
        by (cases f) auto
      have "parse_members (Suc g) (stringify_members kvs @ CHR ''}'' # rest) = Parsed kvs rest"
        using 6 False wf g(2) by simp
      then show ?thesis
        using parse_value_object [of f kvs rest] False g(1) wf
        by (simp add: and_then_def define_properties_distinct)
    qed
  qed
next
  case 7
  show ?case by simp
next
  case (8 x)
  show ?case
  proof (intro impI allI)
    fix f rest
    assume wf: "wf_elems [x]" and len: "length (stringify_elems [x]) \<le> f"
    from len stringify_length [of x] obtain g where g: "f = Suc g" "length (JSON_stringify x) \<le> Suc g"
      by (cases f) auto
    have "parse_value (Suc g) (JSON_stringify x @ CHR '']'' # rest) = Parsed x (CHR '']'' # rest)"
      using 8 wf g(2) by (simp add: number_end_simps)
    then show "parse_elems (Suc f) (stringify_elems [x] @ CHR '']'' # rest) = Parsed [x] rest"
      using g(1) by (simp add: and_then_def is_ws_def)
  qed
next
  case (9 x y xs)
  show ?case
  proof (intro impI allI)
    fix f rest
    assume wf: "wf_elems (x # y # xs)" and len: "length (stringify_elems (x # y # xs)) \<le> f"
    let ?tail = "stringify_elems (y # xs) @ CHR '']'' # rest"
    from len stringify_length [of x] obtain g where g: "f = Suc g"
      "length (JSON_stringify x) \<le> Suc g" "length (stringify_elems (y # xs)) \<le> g"
      by (cases f) auto
    have v: "parse_value (Suc g) (JSON_stringify x @ CHR '','' # ?tail) = Parsed x (CHR '','' # ?tail)"
      using 9(1) wf g(2) by (simp add: number_end_simps)
    obtain c cs where c: "stringify_elems (y # xs) = c # cs" "value_start c"
      using stringify_elems_start [of "y # xs"] by blast
    have sk: "skip_ws ?tail = ?tail"
      using c value_start_not [of c] by simp
    have e: "parse_elems (Suc g) ?tail = Parsed (y # xs) rest"
      using 9(2) wf g(3) by simp
    show "parse_elems (Suc f) (stringify_elems (x # y # xs) @ CHR '']'' # rest)
        = Parsed (x # y # xs) rest"
      using v sk e g(1) by (simp add: and_then_def is_ws_def)
  qed
next
  case 10
  show ?case by simp
next
  case (11 k v)
  show ?case
  proof (intro impI allI)
    fix f rest
    assume wf: "wf_members [(k, v)]" and len: "length (stringify_members [(k, v)]) \<le> f"
    from len stringify_length [of v] obtain g where g: "f = Suc g" "length (JSON_stringify v) \<le> Suc g"
      by (cases f) auto
    have p: "parse_value (Suc g) (JSON_stringify v @ CHR ''}'' # rest) = Parsed v (CHR ''}'' # rest)"
      using 11 wf g(2) by (simp add: number_end_simps)
    obtain c cs where c: "JSON_stringify v = c # cs" "value_start c"
      using stringify_start by blast
    have sk: "skip_ws (JSON_stringify v @ CHR ''}'' # rest) = JSON_stringify v @ CHR ''}'' # rest"
      using c value_start_not [of c] by simp
    have k: "parse_chars (concat (map escape_char k) @ CHR 0x22 # CHR '':'' # JSON_stringify v @ CHR ''}'' # rest)
        = Parsed k (CHR '':'' # JSON_stringify v @ CHR ''}'' # rest)"
      by (rule parse_chars_escaped)
    show "parse_members (Suc f) (stringify_members [(k, v)] @ CHR ''}'' # rest) = Parsed [(k, v)] rest"
      using p sk k g(1) by (simp add: and_then_def is_ws_def quote_def)
  qed
next
  case (12 k v kv kvs)
  show ?case
  proof (intro impI allI)
    fix f rest
    assume wf: "wf_members ((k, v) # kv # kvs)"
      and len: "length (stringify_members ((k, v) # kv # kvs)) \<le> f"
    let ?tail = "stringify_members (kv # kvs) @ CHR ''}'' # rest"
    from len stringify_length [of v] obtain g where g: "f = Suc g"
      "length (JSON_stringify v) \<le> Suc g" "length (stringify_members (kv # kvs)) \<le> g"
      by (cases f) auto
    have p: "parse_value (Suc g) (JSON_stringify v @ CHR '','' # ?tail) = Parsed v (CHR '','' # ?tail)"
      using 12(1) wf g(2) by (simp add: number_end_simps)
    obtain c cs where c: "JSON_stringify v = c # cs" "value_start c"
      using stringify_start by blast
    have sk: "skip_ws (JSON_stringify v @ CHR '','' # ?tail) = JSON_stringify v @ CHR '','' # ?tail"
      using c value_start_not [of c] by simp
    obtain cs' where c': "stringify_members (kv # kvs) = CHR 0x22 # cs'"
      using stringify_members_start [of "kv # kvs"] by blast
    have sk': "skip_ws ?tail = ?tail"
      using c' by (simp add: is_ws_def)
    have m: "parse_members (Suc g) ?tail = Parsed (kv # kvs) rest"
      using 12(2) wf g(3) by simp
    have k: "parse_chars (concat (map escape_char k) @ CHR 0x22 # CHR '':'' # JSON_stringify v @ CHR '','' # ?tail)
        = Parsed k (CHR '':'' # JSON_stringify v @ CHR '','' # ?tail)"
      by (rule parse_chars_escaped)
    show "parse_members (Suc f) (stringify_members ((k, v) # kv # kvs) @ CHR ''}'' # rest)
        = Parsed ((k, v) # kv # kvs) rest"
      using p sk sk' m k g(1) by (simp add: and_then_def is_ws_def quote_def)
  qed
qed

lemma parse_value_stringify:
  "wf_json v \<Longrightarrow> length (JSON_stringify v) \<le> Suc f \<Longrightarrow> number_end rest \<Longrightarrow>
   parse_value (Suc f) (JSON_stringify v @ rest) = Parsed v rest"
  using parse_stringify(1) by blast

lemma JSON_parse_stringify: "wf_json v \<Longrightarrow> JSON_parse (JSON_stringify v) = Inr v"
proof -
  assume wf: "wf_json v"
  obtain c cs where c: "JSON_stringify v = c # cs" "value_start c"
    using stringify_start by blast
  have sk: "skip_ws (JSON_stringify v) = JSON_stringify v"
    using c value_start_not [of c] by simp
  have "parse_value (Suc (Suc (2 * length (JSON_stringify v)))) (JSON_stringify v @ [])
      = Parsed v []"
    using wf by (intro parse_value_stringify) (simp_all add: number_end_simps)
  then show ?thesis
    by (simp add: JSON_parse_def sk)
qed

lemma escape_char_plain:
  "c \<noteq> CHR 0x22 \<and> c \<noteq> CHR 0x5C \<and> 32 \<le> (of_char c :: nat) \<Longrightarrow> escape_char c = [c]"
  by (auto simp: escape_char_def)

lemma quote_plain: "plain s \<Longrightarrow> quote s = CHR 0x22 # s @ [CHR 0x22]"
proof -
  assume "plain s"
  then have "concat (map escape_char s) = s"
    by (induction s) (simp_all add: plain_def escape_char_plain)
  then show ?thesis by (simp add: quote_def)
qed

lemma plain_decimal: "plain (decimal n)"
proof -
  have "is_digit c \<Longrightarrow> c \<noteq> CHR 0x22 \<and> c \<noteq> CHR 0x5C \<and> 32 \<le> (of_char c :: nat)" for c
    by (auto simp: is_digit_def)
  then show ?thesis
    using decimal_digits [of n] by (auto simp: plain_def list_all_iff)
qed

lemma quote_keys:
  \<open>quote ''type'' = ''"type"''\<close> \<open>quote ''id'' = ''"id"''\<close> \<open>quote ''proxyId'' = ''"proxyId"''\<close>
  \<open>quote ''method'' = ''"method"''\<close> \<open>quote ''args'' = ''"args"''\<close> \<open>quote ''res'' = ''"res"''\<close>
  \<open>quote ''err'' = ''"err"''\<close> \<open>quote ''$isError'' = ''"$isError"''\<close>
  \<open>quote ''name'' = ''"name"''\<close> \<open>quote ''message'' = ''"message"''\<close>
  \<open>quote ''stack'' = ''"stack"''\<close>
  by (simp_all add: quote_plain plain_def)

lemma decimal_int_small: "decimal_int 1 = ''1''" "decimal_int 2 = ''2''" "decimal_int 3 = ''3''"
  by (simp_all add: decimal_int_def decimal_Suc_0 decimal_2 decimal_3)

lemma request_stringify:
  "plain req \<Longrightarrow> plain rpcId \<Longrightarrow> plain method \<Longrightarrow>
   request req rpcId method args = JSON_stringify (request_object req rpcId method args)"
  by (simp add: request_def request_object_def quote_keys quote_plain decimal_int_small decimal_Suc_0)

lemma JSON_parse_request:
  assumes "plain req" and "plain rpcId" and "plain method" and "wf_elems args"
  shows "JSON_parse (request req rpcId method args) = Inr (request_object req rpcId method args)"
proof -
  have "wf_json (request_object req rpcId method args)"
    using assms(4) by (simp add: request_object_def)
  then show ?thesis
    using assms(1-3) by (simp add: request_stringify JSON_parse_stringify)
qed

lemmas parse_fuel_numeral =
  parse_value.simps(2) [of "pred_numeral k" for k, folded numeral_eq_Suc]
  parse_elems.simps(2) [of "pred_numeral k" for k, folded numeral_eq_Suc]
  parse_members.simps(2) [of "pred_numeral k" for k, folded numeral_eq_Suc]

lemmas parse_eval = JSON_parse_def parse_fuel_numeral and_then_def literal_def
  parse_number_def is_digit_def is_ws_def unescape_def number_of_digits_def digit_val_def
  continues_number_def define_properties_def Let_def

subsection \<open>Requests on the wire\<close>

lemma property_request_object:
  "property (request_object req rpcId method args) ''type'' = Some (JNumber 1)"
  "property (request_object req rpcId method args) ''id'' = Some (JString req)"
  "property (request_object req rpcId method args) ''proxyId'' = Some (JString rpcId)"
  "property (request_object req rpcId method args) ''method'' = Some (JString method)"
  "property (request_object req rpcId method args) ''args'' = Some (JArray args)"
  by (simp_all add: request_object_def)

lemma receiveOneMessage_parsed:
  assumes "\<not> isDisposed s" and "JSON_parse raw = Inr msg" and "msg \<noteq> JNull"
  shows "receiveOneMessage tr raw s =
     (if property msg ''type'' = Some (JNumber 1) then
        Inr (receiveRequest tr
          \<lparr>req_id = property msg ''id'', req_proxyId = property msg ''proxyId'',
           req_method = property msg ''method'', req_args = property msg ''args''\<rparr> s)
      else if property msg ''type'' = Some (JNumber 2) then
        Inr (receiveReply \<lparr>reply_id = property msg ''id'', reply_res = property msg ''res''\<rparr> s)
      else if property msg ''type'' = Some (JNumber 3) then
        Inr (receiveReplyErr
          \<lparr>replyErr_id = property msg ''id'', replyErr_err = property msg ''err''\<rparr> s)
      else Inr s)"
  using assms by (cases msg) (simp_all add: receiveOneMessage_def)

lemma receiveOneMessage_request:
  assumes "plain req" and "plain rpcId" and "plain method" and "wf_elems args"
    and "\<not> isDisposed s"
  shows "receiveOneMessage tr (request req rpcId method args) s =
     Inr (receiveRequest tr
       \<lparr>req_id = Some (JString req), req_proxyId = Some (JString rpcId),
        req_method = Some (JString method), req_args = Some (JArray args)\<rparr> s)"
proof -
  have p: "JSON_parse (request req rpcId method args) = Inr (request_object req rpcId method args)"
    using assms(1-4) by (rule JSON_parse_request)
  have n: "request_object req rpcId method args \<noteq> JNull"
    by (simp add: request_object_def)
  show ?thesis
    by (simp add: receiveOneMessage_parsed [OF assms(5) p n] property_request_object)
qed

text \<open>
  C7, as amended. For every call id, proxy id and method name without a quote, a backslash
  or a code unit below 32, and every well-formed argument list: \<^verbatim>\<open>JSON.parse\<close> of the text
  made by \<open>request\<close> is the object with \<^verbatim>\<open>type\<close> 1 and with exactly these \<^verbatim>\<open>id\<close>,
  \<^verbatim>\<open>proxyId\<close>, \<^verbatim>\<open>method\<close> and \<^verbatim>\<open>args\<close>, and \<open>receiveOneMessage\<close> on a live instance hands
  them to \<open>receiveRequest\<close>.
\<close>

theorem request_roundtrip:
  assumes "plain req" and "plain rpcId" and "plain method" and "wf_elems args"
  shows "JSON_parse (request req rpcId method args) =
      Inr (JObject [(''type'', JNumber 1), (''id'', JString req), (''proxyId'', JString rpcId),
        (''method'', JString method), (''args'', JArray args)])
    \<and> (\<not> isDisposed s \<longrightarrow>
          receiveOneMessage tr (request req rpcId method args) s =
            Inr (receiveRequest tr
              \<lparr>req_id = Some (JString req), req_proxyId = Some (JString rpcId),
               req_method = Some (JString method), req_args = Some (JArray args)\<rparr> s))"
  using JSON_parse_request [OF assms] receiveOneMessage_request [OF assms, of s tr]
  by (simp add: request_object_def)

theorem request_roundtrip_witness:
  "JSON_parse (request ''1'' ''mService'' ''$greet''
      [JNumber 1, JString ''a'', JObject [(''x'', JBool True)]]) =
    Inr (JObject [(''type'', JNumber 1), (''id'', JString ''1''), (''proxyId'', JString ''mService''),
      (''method'', JString ''$greet''),
      (''args'', JArray [JNumber 1, JString ''a'', JObject [(''x'', JBool True)]])])"
proof -
  have h: "plain ''1''" "plain ''mService''" "plain ''$greet''"
    "wf_elems [JNumber 1, JString ''a'', JObject [(''x'', JBool True)]]"
    by (simp_all add: plain_def)
  show ?thesis
    using request_roundtrip [OF h] by blast
qed

text \<open>
  C7 fails as stated: \<open>request\<close> copies the call id, the proxy id and the method name into
  the text without escaping them. With a quote in the method name the text is not JSON,
  and \<open>receiveOneMessage\<close> fails with the \<^verbatim>\<open>SyntaxError\<close> of \<^verbatim>\<open>JSON.parse\<close>.
\<close>

theorem request_roundtrip_counterexample:
  "JSON_parse (request ''1'' ''mService'' [CHR ''$'', CHR ''a'', CHR 0x22, CHR ''b'']
      [JNumber 1, JString ''a'', JObject [(''x'', JBool True)]]) = Inl SyntaxError
   \<and> receiveOneMessage None (request ''1'' ''mService'' [CHR ''$'', CHR ''a'', CHR 0x22, CHR ''b'']
      [JNumber 1, JString ''a'', JObject [(''x'', JBool True)]]) constructor
     = Inl (ParseFailure SyntaxError)"
proof -
  have p: "JSON_parse (request ''1'' ''mService'' [CHR ''$'', CHR ''a'', CHR 0x22, CHR ''b'']
      [JNumber 1, JString ''a'', JObject [(''x'', JBool True)]]) = Inl SyntaxError"
    by (simp add: request_def decimal_Suc_0 decimal_int_small quote_def escape_char_def parse_eval)
  have d: "\<not> isDisposed constructor"
    by (simp add: constructor_def)
  show ?thesis
    using d by (simp add: p receiveOneMessage_def)
qed

subsection \<open>Errors on the wire\<close>

lemma replyErr_stringify:
  "plain req \<Longrightarrow>
   replyErr req (ThrownError e) =
     JSON_stringify (replyErr_object req
       \<lparr>ser_name = name e, ser_message = message e,
        ser_stack = (if truthy (stacktrace e) then stacktrace e else stack e)\<rparr>)"
  by (simp add: replyErr_object_def quote_keys quote_plain decimal_int_small decimal_3)

lemma wf_SerializedError_json:
  "wf_jsv (ser_name e) \<Longrightarrow> wf_jsv (ser_message e) \<Longrightarrow> wf_jsv (ser_stack e) \<Longrightarrow>
   wf_json (SerializedError_json e)"
  by (auto simp: SerializedError_json_def optional_property_def wf_jsv_def split: option.splits)

lemma property_SerializedError_json:
  "property (SerializedError_json e) ''$isError'' = Some (JBool True)"
  "property (SerializedError_json e) ''name'' = ser_name e"
  "property (SerializedError_json e) ''message'' = ser_message e"
  "property (SerializedError_json e) ''stack'' = ser_stack e"
  by (auto simp: SerializedError_json_def optional_property_def split: option.splits)

lemma truthy_SerializedError_json: "truthy (Some (SerializedError_json e))"
  by (simp add: SerializedError_json_def)

lemma JSON_parse_replyErr:
  assumes "plain req" and "wf_jsv (name e)" and "wf_jsv (message e)" and "wf_jsv (stack e)"
    and "wf_jsv (stacktrace e)"
  shows "JSON_parse (replyErr req (ThrownError e)) =
     Inr (replyErr_object req
       \<lparr>ser_name = name e, ser_message = message e,
        ser_stack = (if truthy (stacktrace e) then stacktrace e else stack e)\<rparr>)"
proof -
  let ?ser = "\<lparr>ser_name = name e, ser_message = message e,
        ser_stack = (if truthy (stacktrace e) then stacktrace e else stack e)\<rparr>"
  have "wf_json (SerializedError_json ?ser)"
    using assms(2-5) by (intro wf_SerializedError_json) simp_all
  then have "wf_json (replyErr_object req ?ser)"
    by (simp add: replyErr_object_def)
  then show ?thesis
    using assms(1) by (simp only: replyErr_stringify JSON_parse_stringify)
qed

lemma receiveReplyErr_present:
  "pendingRPCReplies s (toString (replyErr_id msg)) = Some r \<Longrightarrow>
   receiveReplyErr msg s =
     s\<lparr>pendingRPCReplies := (pendingRPCReplies s)(toString (replyErr_id msg) := None),
       promises := (promises s)[r := resolveErr
         (case replyErr_err msg of
            None \<Rightarrow> None
          | Some e \<Rightarrow>
              if truthy (Some e) \<and> truthy (property e ''$isError'')
              then Some \<lparr>name = property e ''name'', message = property e ''message'',
                         stack = property e ''stack'', stacktrace = None\<rparr>
              else None) (promises s ! r)]\<rparr>"
  by (simp add: receiveReplyErr_def Let_def)

lemma replyErr_roundtrip:
  assumes "\<not> isDisposed s" and "plain cid" and "pendingRPCReplies s cid = Some r"
    and "wf_jsv (name e)" and "wf_jsv (message e)" and "wf_jsv (stack e)"
    and "wf_jsv (stacktrace e)"
  shows "receiveOneMessage tr (replyErr cid (ThrownError e)) s =
     Inr (s\<lparr>pendingRPCReplies := (pendingRPCReplies s)(cid := None),
       promises := (promises s)[r := resolveErr
         (Some \<lparr>name = name e, message = message e,
            stack = (if truthy (stacktrace e) then stacktrace e else stack e),
            stacktrace = None\<rparr>) (promises s ! r)]\<rparr>)"
proof -
  let ?ser = "\<lparr>ser_name = name e, ser_message = message e,
        ser_stack = (if truthy (stacktrace e) then stacktrace e else stack e)\<rparr>"
  let ?msg = "\<lparr>replyErr_id = Some (JString cid), replyErr_err = Some (SerializedError_json ?ser)\<rparr>"
  have p: "JSON_parse (replyErr cid (ThrownError e)) = Inr (replyErr_object cid ?ser)"
    using assms(2,4-7) by (rule JSON_parse_replyErr)
  have n: "replyErr_object cid ?ser \<noteq> JNull"
    by (simp add: replyErr_object_def)
  have d: "receiveOneMessage tr (replyErr cid (ThrownError e)) s = Inr (receiveReplyErr ?msg s)"
    by (simp add: receiveOneMessage_parsed [OF assms(1) p n] replyErr_object_def
        del: replyErr.simps)
  have k: "pendingRPCReplies s (toString (replyErr_id ?msg)) = Some r"
    using assms(3) by (simp add: toString_def)
  show ?thesis
    unfolding d receiveReplyErr_present [OF k]
    by (simp add: toString_def property_SerializedError_json truthy_SerializedError_json)
qed

text \<open>
  C6, as amended. An instance of \<^verbatim>\<open>Error\<close> encoded by \<open>replyErr\<close> under the id of a
  pending call, and received by a live instance: the promise of that call is rejected with
  an error whose \<open>name\<close> and \<open>message\<close> are those of the sender's error, and whose \<open>stack\<close>
  is the sender's \<open>stacktrace\<close> where that is truthy and the sender's \<open>stack\<close> otherwise.
\<close>

theorem replyErr_error_roundtrip:
  assumes "\<not> isDisposed s" and "plain cid" and "pendingRPCReplies s cid = Some r"
    and "r < length (promises s)" and "promises s ! r = Pending"
    and "wf_jsv (name e)" and "wf_jsv (message e)" and "wf_jsv (stack e)"
    and "wf_jsv (stacktrace e)"
  shows "receiveOneMessage tr (replyErr cid (ThrownError e)) s =
      Inr (s\<lparr>pendingRPCReplies := (pendingRPCReplies s)(cid := None),
        promises := (promises s)[r := ResolvedErr
          (Some \<lparr>name = name e, message = message e,
             stack = (if truthy (stacktrace e) then stacktrace e else stack e),
             stacktrace = None\<rparr>)]\<rparr>)
    \<and> (promises s)[r := ResolvedErr
          (Some \<lparr>name = name e, message = message e,
             stack = (if truthy (stacktrace e) then stacktrace e else stack e),
             stacktrace = None\<rparr>)] ! r =
        ResolvedErr
          (Some \<lparr>name = name e, message = message e,
             stack = (if truthy (stacktrace e) then stacktrace e else stack e),
             stacktrace = None\<rparr>)"
  using replyErr_roundtrip [OF assms(1-3,6-9), of tr] assms(4,5)
  by (simp add: resolveErr_def del: replyErr.simps)

lemma one_outstanding:
  "snd (remoteCall None ''mService'' ''$greet'' [] constructor) =
     constructor\<lparr>lastMessageId := 1, promises := [Pending],
       pendingRPCReplies := [''1'' \<mapsto> 0],
       multiplexor := \<lparr>messagesToSend = [request ''1'' ''mService'' ''$greet'' []],
         immediates = 1, connection = []\<rparr>\<rparr>"
  by (simp add: remoteCall_def Let_def constructor_def js_increment_0 decimal_Suc_0 send_def)

theorem replyErr_error_roundtrip_witness:
  "receiveOneMessage None
      (replyErr ''1'' (ThrownError (new_Error (Some (JString ''at f'')) ''boom'')))
      (snd (remoteCall None ''mService'' ''$greet'' [] constructor)) =
    Inr ((snd (remoteCall None ''mService'' ''$greet'' [] constructor))
      \<lparr>pendingRPCReplies :=
         (pendingRPCReplies (snd (remoteCall None ''mService'' ''$greet'' [] constructor)))
           (''1'' := None),
       promises := [ResolvedErr
          (Some \<lparr>name = Some (JString ''Error''), message = Some (JString ''boom''),
             stack = Some (JString ''at f''), stacktrace = None\<rparr>)]\<rparr>)"
proof -
  let ?s = "snd (remoteCall None ''mService'' ''$greet'' [] constructor)"
  let ?e = "new_Error (Some (JString ''at f'')) ''boom''"
  have h: "\<not> isDisposed ?s" "plain ''1''" "pendingRPCReplies ?s ''1'' = Some 0"
    "0 < length (promises ?s)" "promises ?s ! 0 = Pending"
    "wf_jsv (name ?e)" "wf_jsv (message ?e)" "wf_jsv (stack ?e)" "wf_jsv (stacktrace ?e)"
    unfolding one_outstanding
    by (simp_all add: constructor_def plain_def new_Error_def wf_jsv_def)
  have p: "promises ?s = [Pending]"
    by (simp add: one_outstanding)
  show ?thesis
    using replyErr_error_roundtrip [OF h, of None]
    by (simp add: p new_Error_def del: replyErr.simps)
qed

text \<open>
  C6 fails as stated: \<^verbatim>\<open>transformErrorForSerialization\<close> sends \<^verbatim>\<open>error.stacktrace || error.stack\<close>,
  so an error that has both properties arrives with the \<open>stacktrace\<close> text as its stack.
\<close>

theorem replyErr_stack_counterexample:
  "map_sum id promises (receiveOneMessage None
      (replyErr ''1'' (ThrownError
         \<lparr>name = Some (JString ''Error''), message = Some (JString ''boom''),
          stack = Some (JString ''at f''), stacktrace = Some (JString ''at g'')\<rparr>))
      (snd (remoteCall None ''mService'' ''$greet'' [] constructor))) =
     Inr [ResolvedErr
       (Some \<lparr>name = Some (JString ''Error''), message = Some (JString ''boom''),
          stack = Some (JString ''at g''), stacktrace = None\<rparr>)]"
proof -
  let ?s = "snd (remoteCall None ''mService'' ''$greet'' [] constructor)"
  let ?e = "\<lparr>name = Some (JString ''Error''), message = Some (JString ''boom''),
          stack = Some (JString ''at f''), stacktrace = Some (JString ''at g'')\<rparr>"
  have h: "\<not> isDisposed ?s" "plain ''1''" "pendingRPCReplies ?s ''1'' = Some 0"
    "wf_jsv (name ?e)" "wf_jsv (message ?e)" "wf_jsv (stack ?e)" "wf_jsv (stacktrace ?e)"
    unfolding one_outstanding
    by (simp_all add: constructor_def plain_def wf_jsv_def)
  have p: "promises ?s = [Pending]"
    by (simp add: one_outstanding)
  show ?thesis
    using replyErr_roundtrip [OF h, of None]
    by (simp add: p resolveErr_def del: replyErr.simps)
qed

text \<open>
  C5, as amended. \<open>replyErr\<close> renders an instance of \<^verbatim>\<open>Error\<close> as the object
  \<^verbatim>\<open>{$isError: true, name, message, stack}\<close> (the stack being
  \<^verbatim>\<open>error.stacktrace || error.stack\<close>, a property that is \<^verbatim>\<open>undefined\<close> being left out), and
  every other value, \<^verbatim>\<open>null\<close> and \<^verbatim>\<open>undefined\<close> among them, as an explicit \<^verbatim>\<open>null\<close> in the
  field \<^verbatim>\<open>err\<close>. Only \<^verbatim>\<open>transformErrorForSerialization\<close> itself gives back a value that is
  not an \<^verbatim>\<open>Error\<close> as it is.
\<close>

theorem replyErr_serialization:
  \<open>replyErr req (ThrownError e) =
     ''{"type":3,"id":"'' @ req @ ''","err":''
       @ JSON_stringify (JObject ((''$isError'', JBool True) # optional_property ''name'' (name e)
           @ optional_property ''message'' (message e)
           @ optional_property ''stack''
               (if truthy (stacktrace e) then stacktrace e else stack e))) @ ''}''
   \<and> replyErr req (ThrownValue v) = ''{"type":3,"id":"'' @ req @ ''","err":null}''
   \<and> transformErrorForSerialization (ThrownValue v) = AsIs v
   \<and> JSON_stringify (SerializedError_json
         \<lparr>ser_name = Some (JString n), ser_message = Some (JString m),
          ser_stack = Some (JString st)\<rparr>) =
       ''{"$isError":true,"name":'' @ quote n @ '',"message":'' @ quote m
         @ '',"stack":'' @ quote st @ ''}''\<close>
  by (simp add: decimal_3 SerializedError_json_def optional_property_def quote_keys)

text \<open>
  C5 fails as stated: a rejection with the string \<^verbatim>\<open>boom\<close> is not passed through but
  encoded as \<^verbatim>\<open>null\<close>, and the marker property of an encoded error is \<^verbatim>\<open>$isError\<close>.
\<close>

theorem replyErr_serialization_counterexample:
  \<open>replyErr ''1'' (ThrownValue (Some (JString ''boom''))) = ''{"type":3,"id":"1","err":null}''
   \<and> replyErr ''1'' (ThrownValue (Some (JString ''boom''))) \<noteq> ''{"type":3,"id":"1","err":"boom"}''
   \<and> stringify_serialized (transformErrorForSerialization
         (ThrownError (new_Error (Some (JString ''at f'')) ''boom''))) =
       ''{"$isError":true,"name":"Error","message":"boom","stack":"at f"}''\<close>
  by (simp add: decimal_3 SerializedError_json_def optional_property_def quote_keys
      new_Error_def quote_plain plain_def)

subsection \<open>The fuel of the reader\<close>

text \<open>
  Every successful call of the reader consumes at least one character, so the fuel that
  \<open>JSON_parse\<close> gives is never used up.
\<close>

lemma length_skip_ws: "length (skip_ws s) \<le> length s"
  by (induction s) auto

lemma and_then_Parsed:
  "and_then p f = Parsed a r \<Longrightarrow> \<exists>x r'. p = Parsed x r' \<and> f x r' = Parsed a r"
  by (cases p) (simp_all add: and_then_def)

lemma and_then_OutOfFuel:
  "and_then p f = Failed OutOfFuel \<Longrightarrow>
   p = Failed OutOfFuel \<or> (\<exists>x r'. p = Parsed x r' \<and> f x r' = Failed OutOfFuel)"
  by (cases p) (simp_all add: and_then_def)

lemma and_then_cons_Parsed:
  "and_then p (\<lambda>s rest. Parsed (ch # s) rest) = Parsed str r \<Longrightarrow> \<exists>s'. p = Parsed s' r"
  by (cases p) (simp_all add: and_then_def)

lemma and_then_cons_fuel:
  "and_then p (\<lambda>s rest. Parsed (ch # s) rest) = Failed e \<Longrightarrow> p = Failed e"
  by (cases p) (simp_all add: and_then_def)

lemma parse_chars_Cons_Parsed:
  assumes "parse_chars (c # cs1) = Parsed str r"
  shows "r = cs1 \<or> (\<exists>cs' s'. length cs' \<le> length cs1 \<and> parse_chars cs' = Parsed s' r)"
proof (cases "c = CHR 0x22")
  case True
  with assms show ?thesis by simp
next
  case q: False
  show ?thesis
  proof (cases "c = CHR 0x5C")
    case False
    with q assms have "\<exists>s'. parse_chars cs1 = Parsed s' r"
      by (auto split: if_splits dest: and_then_cons_Parsed)
    then show ?thesis by auto
  next
    case True
    show ?thesis
    proof (cases cs1)
      case Nil
      with True assms show ?thesis by simp
    next
      case (Cons e cs2)
      show ?thesis
      proof (cases "e = CHR ''u''")
        case False
        with True Cons assms have "\<exists>s'. parse_chars cs2 = Parsed s' r"
          by (auto split: option.splits dest: and_then_cons_Parsed)
        with Cons show ?thesis by auto
      next
        case u: True
        show ?thesis
        proof (cases cs2)
          case Nil
          with True Cons u assms show ?thesis by simp
        next
          case c1: (Cons h1 t1)
          show ?thesis
          proof (cases t1)
            case Nil
            with True Cons u c1 assms show ?thesis by simp
          next
            case c2: (Cons h2 t2)
            show ?thesis
            proof (cases t2)
              case Nil
              with True Cons u c1 c2 assms show ?thesis by simp
            next
              case c3: (Cons h3 t3)
              show ?thesis
              proof (cases t3)
                case Nil
                with True Cons u c1 c2 c3 assms show ?thesis by simp
              next
                case c4: (Cons h4 t4)
                from True Cons u c1 c2 c3 c4 assms have "\<exists>s'. parse_chars t4 = Parsed s' r"
                  by (auto simp: Let_def split: option.splits if_splits
                      dest: and_then_cons_Parsed)
                with Cons c1 c2 c3 c4 show ?thesis by auto
              qed
            qed
          qed
        qed
      qed
    qed
  qed
qed

lemma parse_chars_shorter: "parse_chars cs = Parsed str r \<Longrightarrow> length r < length cs"
proof (induction "length cs" arbitrary: cs str r rule: less_induct)
  case less
  show ?case
  proof (cases cs)
    case Nil
    with less.prems show ?thesis by simp
  next
    case (Cons c cs1)
    from less.prems Cons parse_chars_Cons_Parsed [of c cs1 str r]
    consider "r = cs1" | cs' s' where "length cs' \<le> length cs1" "parse_chars cs' = Parsed s' r"
      by auto
    then show ?thesis
    proof cases
      case 1
      with Cons show ?thesis by simp
    next
      case 2
      with less.hyps [of cs' s' r] Cons show ?thesis by simp
    qed
  qed
qed

lemma parse_chars_Cons_fuel:
  assumes "parse_chars (c # cs1) = Failed OutOfFuel"
  shows "\<exists>cs'. length cs' \<le> length cs1 \<and> parse_chars cs' = Failed OutOfFuel"
proof (cases "c = CHR 0x22")
  case True
  with assms show ?thesis by simp
next
  case q: False
  show ?thesis
  proof (cases "c = CHR 0x5C")
    case False
    with q assms have "parse_chars cs1 = Failed OutOfFuel"
      by (auto split: if_splits dest: and_then_cons_fuel)
    then show ?thesis by auto
  next
    case True
    show ?thesis
    proof (cases cs1)
      case Nil
      with True assms show ?thesis by simp
    next
      case (Cons e cs2)
      show ?thesis
      proof (cases "e = CHR ''u''")
        case False
        with True Cons assms have "parse_chars cs2 = Failed OutOfFuel"
          by (auto split: option.splits dest: and_then_cons_fuel)
        with Cons show ?thesis by (auto intro!: exI [of _ cs2])
      next
        case u: True
        show ?thesis
        proof (cases cs2)
          case Nil
          with True Cons u assms show ?thesis by simp
        next
          case c1: (Cons h1 t1)
          show ?thesis
          proof (cases t1)
            case Nil
            with True Cons u c1 assms show ?thesis by simp
          next
            case c2: (Cons h2 t2)
            show ?thesis
            proof (cases t2)
              case Nil
              with True Cons u c1 c2 assms show ?thesis by simp
            next
              case c3: (Cons h3 t3)
              show ?thesis
              proof (cases t3)
                case Nil
                with True Cons u c1 c2 c3 assms show ?thesis by simp
              next
                case c4: (Cons h4 t4)
                from True Cons u c1 c2 c3 c4 assms have "parse_chars t4 = Failed OutOfFuel"
                  by (auto simp: Let_def split: option.splits if_splits
                      dest: and_then_cons_fuel)
                with Cons c1 c2 c3 c4 show ?thesis by (auto intro!: exI [of _ t4])
              qed
            qed
          qed
        qed
      qed
    qed
  qed
qed

lemma parse_chars_fuel: "parse_chars cs \<noteq> Failed OutOfFuel"
proof (induction "length cs" arbitrary: cs rule: less_induct)
  case less
  show ?case
  proof (cases cs)
    case Nil
    then show ?thesis by simp
  next
    case (Cons c cs1)
    show ?thesis
    proof
      assume "parse_chars cs = Failed OutOfFuel"
      with Cons parse_chars_Cons_fuel [of c cs1]
      obtain cs' where "length cs' \<le> length cs1" "parse_chars cs' = Failed OutOfFuel"
        by auto
      with less.hyps [of cs'] Cons show False by simp
    qed
  qed
qed

lemma parse_number_fuel: "parse_number s \<noteq> Failed OutOfFuel"
proof -
  let ?s1 = "if s \<noteq> [] \<and> hd s = CHR ''-'' then tl s else s"
  show ?thesis
    unfolding parse_number_def Let_def
    by (cases ?s1) (simp_all split: if_splits)
qed

lemma literal_shorter: "w \<noteq> [] \<Longrightarrow> literal w v s = Parsed x r \<Longrightarrow> length r < length s"
  by (cases s) (auto simp: literal_def split: if_splits)

lemma literal_fuel: "literal w v s \<noteq> Failed OutOfFuel"
  by (simp add: literal_def)

lemma parse_number_shorter:
  assumes "parse_number s = Parsed v r"
  shows "length r < length s"
proof -
  define s1 where "s1 = (if s \<noteq> [] \<and> hd s = CHR ''-'' then tl s else s)"
  have l: "length s1 \<le> length s"
    by (simp add: s1_def)
  have p: "parse_number s =
      (case s1 of
           [] \<Rightarrow> Failed SyntaxError
         | d # ds \<Rightarrow>
             if \<not> is_digit d then Failed SyntaxError
             else
               (let ip = (if d = CHR ''0'' then [d] else takeWhile is_digit s1);
                    rest = (if d = CHR ''0'' then ds else dropWhile is_digit s1);
                    n = number_of_digits ip
                in if continues_number rest then Failed Unsupported
                   else if n < 2 ^ 53
                   then Parsed (JNumber (if s \<noteq> [] \<and> hd s = CHR ''-'' then - int n else int n)) rest
                   else Failed Unsupported))"
    unfolding parse_number_def s1_def Let_def by (rule refl)
  obtain d ds where s1: "s1 = d # ds"
    using assms unfolding p by (cases s1) simp_all
  have d: "is_digit d"
    using assms unfolding p s1 by (simp split: if_splits)
  have "r = ds \<or> r = dropWhile is_digit (d # ds)"
    using assms d unfolding p s1 Let_def
    by (simp split: if_splits)
  moreover have "length (dropWhile is_digit (d # ds)) \<le> length ds"
    using d length_dropWhile_le [of is_digit ds] by simp
  ultimately have "length r \<le> length ds"
    by auto
  with l s1 show ?thesis
    by simp
qed

lemma parse_value_Suc_Parsed:
  assumes "parse_value (Suc n) s = Parsed v r"
  shows "length r < length s
    \<or> (\<exists>s' ms. length s' < length s \<and> parse_members n s' = Parsed ms r)
    \<or> (\<exists>s' vs. length s' < length s \<and> parse_elems n s' = Parsed vs r)"
proof (cases s)
  case Nil
  with assms show ?thesis by (simp add: parse_value.simps)
next
  case (Cons c cs)
  have sk: "length (skip_ws cs) < length s"
    using length_skip_ws [of cs] Cons by simp
  consider (obj) "c = CHR ''{''" | (arr) "c \<noteq> CHR ''{''" "c = CHR ''[''"
    | (str) "c \<noteq> CHR ''{''" "c \<noteq> CHR ''[''" "c = CHR 0x22"
    | (leaf) "c \<noteq> CHR ''{''" "c \<noteq> CHR ''[''" "c \<noteq> CHR 0x22"
    by blast
  then show ?thesis
  proof cases
    case obj
    show ?thesis
    proof (cases "skip_ws cs")
      case Nil
      with assms Cons obj show ?thesis by (simp add: parse_value.simps)
    next
      case c': (Cons c' cs')
      show ?thesis
      proof (cases "c' = CHR ''}''")
        case True
        with assms Cons obj c' have "r = cs'" by (simp add: parse_value.simps)
        with sk c' show ?thesis by simp
      next
        case False
        with assms Cons obj c'
        have "and_then (parse_members n (skip_ws cs))
            (\<lambda>ms rest. Parsed (JObject (define_properties ms)) rest) = Parsed v r"
          by (simp add: parse_value.simps)
        from and_then_Parsed [OF this] obtain ms where "parse_members n (skip_ws cs) = Parsed ms r"
          by auto
        with sk show ?thesis by blast
      qed
    qed
  next
    case arr
    show ?thesis
    proof (cases "skip_ws cs")
      case Nil
      with assms Cons arr show ?thesis by (simp add: parse_value.simps)
    next
      case c': (Cons c' cs')
      show ?thesis
      proof (cases "c' = CHR '']''")
        case True
        with assms Cons arr c' have "r = cs'" by (simp add: parse_value.simps)
        with sk c' show ?thesis by simp
      next
        case False
        with assms Cons arr c'
        have "and_then (parse_elems n (skip_ws cs)) (\<lambda>vs rest. Parsed (JArray vs) rest) = Parsed v r"
          by (simp add: parse_value.simps)
        from and_then_Parsed [OF this] obtain vs where "parse_elems n (skip_ws cs) = Parsed vs r"
          by auto
        with sk show ?thesis by blast
      qed
    qed
  next
    case str
    with assms Cons
    have "and_then (parse_chars cs) (\<lambda>str rest. Parsed (JString str) rest) = Parsed v r"
      by (simp add: parse_value.simps)
    from and_then_Parsed [OF this] obtain k where "parse_chars cs = Parsed k r"
      by auto
    from parse_chars_shorter [OF this] Cons show ?thesis by simp
  next
    case leaf
    with assms Cons
    have "parse_number s = Parsed v r \<or> literal ''true'' (JBool True) s = Parsed v r
      \<or> literal ''false'' (JBool False) s = Parsed v r \<or> literal ''null'' JNull s = Parsed v r"
      by (simp add: parse_value.simps split: if_splits)
    then show ?thesis
      using parse_number_shorter [of s v r] literal_shorter [of _ _ s v r] by auto
  qed
qed

lemma parse_elems_Suc_Parsed:
  assumes "parse_elems (Suc n) s = Parsed vs r"
  shows "\<exists>v r1. parse_value n s = Parsed v r1
    \<and> (length r < length r1
       \<or> (\<exists>s' vs'. length s' < length r1 \<and> parse_elems n s' = Parsed vs' r))"
proof -
  from assms have "and_then (parse_value n s) (\<lambda>v r.
       case skip_ws r of
         [] \<Rightarrow> Failed SyntaxError
       | c # r' \<Rightarrow>
           if c = CHR '','' then
             and_then (parse_elems n (skip_ws r')) (\<lambda>vs rest. Parsed (v # vs) rest)
           else if c = CHR '']'' then Parsed [v] r'
           else Failed SyntaxError) = Parsed vs r"
    by simp
  from and_then_Parsed [OF this]
  obtain v r1 where v: "parse_value n s = Parsed v r1"
    and k: "(case skip_ws r1 of
         [] \<Rightarrow> Failed SyntaxError
       | c # r' \<Rightarrow>
           if c = CHR '','' then
             and_then (parse_elems n (skip_ws r')) (\<lambda>vs rest. Parsed (v # vs) rest)
           else if c = CHR '']'' then Parsed [v] r'
           else Failed SyntaxError) = Parsed vs r"
    by auto
  obtain c r' where c: "skip_ws r1 = c # r'"
    using k by (cases "skip_ws r1") simp_all
  have l: "length r' < length r1"
    using length_skip_ws [of r1] c by simp
  have l': "length (skip_ws r') < length r1"
    using length_skip_ws [of r'] l by simp
  show ?thesis
  proof (cases "c = CHR '',''")
    case True
    with k c have "and_then (parse_elems n (skip_ws r')) (\<lambda>vs rest. Parsed (v # vs) rest)
        = Parsed vs r"
      by simp
    from and_then_Parsed [OF this] obtain vs' where "parse_elems n (skip_ws r') = Parsed vs' r"
      by auto
    with v l' show ?thesis by blast
  next
    case False
    with k c have "r = r'" by (simp split: if_splits)
    with v l show ?thesis by blast
  qed
qed

lemma parse_members_Suc_Parsed:
  assumes "parse_members (Suc n) s = Parsed ms r"
  shows "\<exists>s1 v r2. length s1 < length s \<and> parse_value n s1 = Parsed v r2
    \<and> (length r < length r2
       \<or> (\<exists>s' ms'. length s' < length r2 \<and> parse_members n s' = Parsed ms' r))"
proof -
  obtain q cs where s: "s = q # cs" "q = CHR 0x22"
    using assms by (cases s) (simp_all split: if_splits)
  from assms s have "and_then (parse_chars cs) (\<lambda>k r.
            case skip_ws r of
              [] \<Rightarrow> Failed SyntaxError
            | colon # r1 \<Rightarrow>
                if colon \<noteq> CHR '':'' then Failed SyntaxError
                else and_then (parse_value n (skip_ws r1)) (\<lambda>v r2.
                  case skip_ws r2 of
                    [] \<Rightarrow> Failed SyntaxError
                  | c # r3 \<Rightarrow>
                      if c = CHR '','' then
                        and_then (parse_members n (skip_ws r3))
                          (\<lambda>ms rest. Parsed ((k, v) # ms) rest)
                      else if c = CHR ''}'' then Parsed [(k, v)] r3
                      else Failed SyntaxError)) = Parsed ms r"
    by simp
  from and_then_Parsed [OF this]
  obtain k r0 where k: "parse_chars cs = Parsed k r0"
    and k1: "(case skip_ws r0 of
              [] \<Rightarrow> Failed SyntaxError
            | colon # r1 \<Rightarrow>
                if colon \<noteq> CHR '':'' then Failed SyntaxError
                else and_then (parse_value n (skip_ws r1)) (\<lambda>v r2.
                  case skip_ws r2 of
                    [] \<Rightarrow> Failed SyntaxError
                  | c # r3 \<Rightarrow>
                      if c = CHR '','' then
                        and_then (parse_members n (skip_ws r3))
                          (\<lambda>ms rest. Parsed ((k, v) # ms) rest)
                      else if c = CHR ''}'' then Parsed [(k, v)] r3
                      else Failed SyntaxError)) = Parsed ms r"
    by auto
  obtain colon r1 where c0: "skip_ws r0 = colon # r1"
    using k1 by (cases "skip_ws r0") simp_all
  have l0: "length (skip_ws r1) < length s"
    using parse_chars_shorter [OF k] length_skip_ws [of r0] length_skip_ws [of r1] c0 s by simp
  from k1 c0 have "and_then (parse_value n (skip_ws r1)) (\<lambda>v r2.
                  case skip_ws r2 of
                    [] \<Rightarrow> Failed SyntaxError
                  | c # r3 \<Rightarrow>
                      if c = CHR '','' then
                        and_then (parse_members n (skip_ws r3))
                          (\<lambda>ms rest. Parsed ((k, v) # ms) rest)
                      else if c = CHR ''}'' then Parsed [(k, v)] r3
                      else Failed SyntaxError) = Parsed ms r"
    by (simp split: if_splits)
  from and_then_Parsed [OF this]
  obtain v r2 where v: "parse_value n (skip_ws r1) = Parsed v r2"
    and k2: "(case skip_ws r2 of
                    [] \<Rightarrow> Failed SyntaxError
                  | c # r3 \<Rightarrow>
                      if c = CHR '','' then
                        and_then (parse_members n (skip_ws r3))
                          (\<lambda>ms rest. Parsed ((k, v) # ms) rest)
                      else if c = CHR ''}'' then Parsed [(k, v)] r3
                      else Failed SyntaxError) = Parsed ms r"
    by auto
  obtain c r3 where c: "skip_ws r2 = c # r3"
    using k2 by (cases "skip_ws r2") simp_all
  have l: "length r3 < length r2"
    using length_skip_ws [of r2] c by simp
  have l': "length (skip_ws r3) < length r2"
    using length_skip_ws [of r3] l by simp
  show ?thesis
  proof (cases "c = CHR '',''")
    case True
    with k2 c have "and_then (parse_members n (skip_ws r3)) (\<lambda>ms rest. Parsed ((k, v) # ms) rest)
        = Parsed ms r"
      by simp
    from and_then_Parsed [OF this] obtain ms' where "parse_members n (skip_ws r3) = Parsed ms' r"
      by auto
    with v l' l0 show ?thesis by blast
  next
    case False
    with k2 c have "r = r3" by (simp split: if_splits)
    with v l l0 show ?thesis by blast
  qed
qed

lemma parse_shorter:
  "(\<forall>s v r. parse_value f s = Parsed v r \<longrightarrow> length r < length s)
   \<and> (\<forall>s vs r. parse_elems f s = Parsed vs r \<longrightarrow> length r < length s)
   \<and> (\<forall>s ms r. parse_members f s = Parsed ms r \<longrightarrow> length r < length s)"
proof (induction f)
  case 0
  show ?case by (simp add: parse_value.simps)
next
  case (Suc n)
  have v: "length r < length s" if "parse_value (Suc n) s = Parsed v r" for s v r
    using parse_value_Suc_Parsed [OF that] Suc by (meson less_trans)
  have e: "length r < length s" if "parse_elems (Suc n) s = Parsed vs r" for s vs r
    using parse_elems_Suc_Parsed [OF that] Suc by (meson less_trans)
  have m: "length r < length s" if "parse_members (Suc n) s = Parsed ms r" for s ms r
    using parse_members_Suc_Parsed [OF that] Suc by (meson less_trans)
  from v e m show ?case by blast
qed

lemma parse_value_shorter: "parse_value f s = Parsed v r \<Longrightarrow> length r < length s"
  using parse_shorter [of f] by blast

lemma parse_value_Suc_fuel:
  assumes "parse_value (Suc n) s = Failed OutOfFuel"
  shows "\<exists>s'. length s' < length s
    \<and> (parse_members n s' = Failed OutOfFuel \<or> parse_elems n s' = Failed OutOfFuel)"
proof (cases s)
  case Nil
  with assms show ?thesis by (simp add: parse_value.simps)
next
  case (Cons c cs)
  have sk: "length (skip_ws cs) < length s"
    using length_skip_ws [of cs] Cons by simp
  consider (obj) "c = CHR ''{''" | (arr) "c \<noteq> CHR ''{''" "c = CHR ''[''"
    | (str) "c \<noteq> CHR ''{''" "c \<noteq> CHR ''[''" "c = CHR 0x22"
    | (leaf) "c \<noteq> CHR ''{''" "c \<noteq> CHR ''[''" "c \<noteq> CHR 0x22"
    by blast
  then show ?thesis
  proof cases
    case obj
    show ?thesis
    proof (cases "skip_ws cs")
      case Nil
      with assms Cons obj show ?thesis by (simp add: parse_value.simps)
    next
      case c': (Cons c' cs')
      show ?thesis
      proof (cases "c' = CHR ''}''")
        case True
        with assms Cons obj c' show ?thesis by (simp add: parse_value.simps)
      next
        case False
        with assms Cons obj c'
        have "and_then (parse_members n (skip_ws cs))
            (\<lambda>ms rest. Parsed (JObject (define_properties ms)) rest) = Failed OutOfFuel"
          by (simp add: parse_value.simps)
        from and_then_OutOfFuel [OF this] have "parse_members n (skip_ws cs) = Failed OutOfFuel"
          by auto
        with sk show ?thesis by blast
      qed
    qed
  next
    case arr
    show ?thesis
    proof (cases "skip_ws cs")
      case Nil
      with assms Cons arr show ?thesis by (simp add: parse_value.simps)
    next
      case c': (Cons c' cs')
      show ?thesis
      proof (cases "c' = CHR '']''")
        case True
        with assms Cons arr c' show ?thesis by (simp add: parse_value.simps)
      next
        case False
        with assms Cons arr c'
        have "and_then (parse_elems n (skip_ws cs)) (\<lambda>vs rest. Parsed (JArray vs) rest)
            = Failed OutOfFuel"
          by (simp add: parse_value.simps)
        from and_then_OutOfFuel [OF this] have "parse_elems n (skip_ws cs) = Failed OutOfFuel"
          by auto
        with sk show ?thesis by blast
      qed
    qed
  next
    case str
    with assms Cons
    have "and_then (parse_chars cs) (\<lambda>str rest. Parsed (JString str) rest) = Failed OutOfFuel"
      by (simp add: parse_value.simps)
    from and_then_OutOfFuel [OF this] parse_chars_fuel [of cs] show ?thesis
      by auto
  next
    case leaf
    with assms Cons
    have "parse_number s = Failed OutOfFuel \<or> literal ''true'' (JBool True) s = Failed OutOfFuel
      \<or> literal ''false'' (JBool False) s = Failed OutOfFuel
      \<or> literal ''null'' JNull s = Failed OutOfFuel"
      by (simp add: parse_value.simps split: if_splits)
    then show ?thesis
      using parse_number_fuel [of s] literal_fuel [of _ _ s] by auto
  qed
qed

lemma parse_elems_Suc_fuel:
  assumes "parse_elems (Suc n) s = Failed OutOfFuel"
  shows "parse_value n s = Failed OutOfFuel
    \<or> (\<exists>s'. Suc (length s') < length s \<and> parse_elems n s' = Failed OutOfFuel)"
proof -
  from assms have "and_then (parse_value n s) (\<lambda>v r.
       case skip_ws r of
         [] \<Rightarrow> Failed SyntaxError
       | c # r' \<Rightarrow>
           if c = CHR '','' then
             and_then (parse_elems n (skip_ws r')) (\<lambda>vs rest. Parsed (v # vs) rest)
           else if c = CHR '']'' then Parsed [v] r'
           else Failed SyntaxError) = Failed OutOfFuel"
    by simp
  from and_then_OutOfFuel [OF this]
  consider "parse_value n s = Failed OutOfFuel"
    | v r1 where "parse_value n s = Parsed v r1"
      "(case skip_ws r1 of
         [] \<Rightarrow> Failed SyntaxError
       | c # r' \<Rightarrow>
           if c = CHR '','' then
             and_then (parse_elems n (skip_ws r')) (\<lambda>vs rest. Parsed (v # vs) rest)
           else if c = CHR '']'' then Parsed [v] r'
           else Failed SyntaxError) = Failed OutOfFuel"
    by auto
  then show ?thesis
  proof cases
    case 1
    then show ?thesis by simp
  next
    case 2
    obtain c r' where c: "skip_ws r1 = c # r'"
      using 2(2) by (cases "skip_ws r1") simp_all
    have l: "Suc (length (skip_ws r')) < length s"
      using length_skip_ws [of r'] length_skip_ws [of r1] c parse_value_shorter [OF 2(1)]
      by simp
    from 2(2) c have "and_then (parse_elems n (skip_ws r')) (\<lambda>vs rest. Parsed (v # vs) rest)
        = Failed OutOfFuel"
      by (simp split: if_splits)
    from and_then_OutOfFuel [OF this] have "parse_elems n (skip_ws r') = Failed OutOfFuel"
      by auto
    with l show ?thesis by blast
  qed
qed

lemma parse_members_Suc_fuel:
  assumes "parse_members (Suc n) s = Failed OutOfFuel"
  shows "(\<exists>s1. Suc (length s1) < length s \<and> parse_value n s1 = Failed OutOfFuel)
    \<or> (\<exists>s'. Suc (length s') < length s \<and> parse_members n s' = Failed OutOfFuel)"
proof -
  obtain q cs where s: "s = q # cs" "q = CHR 0x22"
    using assms by (cases s) (simp_all split: if_splits)
  from assms s have "and_then (parse_chars cs) (\<lambda>k r.
            case skip_ws r of
              [] \<Rightarrow> Failed SyntaxError
            | colon # r1 \<Rightarrow>
                if colon \<noteq> CHR '':'' then Failed SyntaxError
                else and_then (parse_value n (skip_ws r1)) (\<lambda>v r2.
                  case skip_ws r2 of
                    [] \<Rightarrow> Failed SyntaxError
                  | c # r3 \<Rightarrow>
                      if c = CHR '','' then
                        and_then (parse_members n (skip_ws r3))
                          (\<lambda>ms rest. Parsed ((k, v) # ms) rest)
                      else if c = CHR ''}'' then Parsed [(k, v)] r3
                      else Failed SyntaxError)) = Failed OutOfFuel"
    by simp
  from and_then_OutOfFuel [OF this] parse_chars_fuel [of cs]
  obtain k r0 where k: "parse_chars cs = Parsed k r0"
    and k1: "(case skip_ws r0 of
              [] \<Rightarrow> Failed SyntaxError
            | colon # r1 \<Rightarrow>
                if colon \<noteq> CHR '':'' then Failed SyntaxError
                else and_then (parse_value n (skip_ws r1)) (\<lambda>v r2.
                  case skip_ws r2 of
                    [] \<Rightarrow> Failed SyntaxError
                  | c # r3 \<Rightarrow>
                      if c = CHR '','' then
                        and_then (parse_members n (skip_ws r3))
                          (\<lambda>ms rest. Parsed ((k, v) # ms) rest)
                      else if c = CHR ''}'' then Parsed [(k, v)] r3
                      else Failed SyntaxError)) = Failed OutOfFuel"
    by auto
  obtain colon r1 where c0: "skip_ws r0 = colon # r1"
    using k1 by (cases "skip_ws r0") simp_all
  have l0: "Suc (Suc (length (skip_ws r1))) < length s"
    using parse_chars_shorter [OF k] length_skip_ws [of r0] length_skip_ws [of r1] c0 s by simp
  from k1 c0 have "and_then (parse_value n (skip_ws r1)) (\<lambda>v r2.
                  case skip_ws r2 of
                    [] \<Rightarrow> Failed SyntaxError
                  | c # r3 \<Rightarrow>
                      if c = CHR '','' then
                        and_then (parse_members n (skip_ws r3))
                          (\<lambda>ms rest. Parsed ((k, v) # ms) rest)
                      else if c = CHR ''}'' then Parsed [(k, v)] r3
                      else Failed SyntaxError) = Failed OutOfFuel"
    by (simp split: if_splits)
  from and_then_OutOfFuel [OF this]
  consider "parse_value n (skip_ws r1) = Failed OutOfFuel"
    | v r2 where "parse_value n (skip_ws r1) = Parsed v r2"
      "(case skip_ws r2 of
                    [] \<Rightarrow> Failed SyntaxError
                  | c # r3 \<Rightarrow>
                      if c = CHR '','' then
                        and_then (parse_members n (skip_ws r3))
                          (\<lambda>ms rest. Parsed ((k, v) # ms) rest)
                      else if c = CHR ''}'' then Parsed [(k, v)] r3
                      else Failed SyntaxError) = Failed OutOfFuel"
    by auto
  then show ?thesis
  proof cases
    case 1
    with l0 show ?thesis
      by (meson Suc_lessD)
  next
    case 2
    obtain c r3 where c: "skip_ws r2 = c # r3"
      using 2(2) by (cases "skip_ws r2") simp_all
    have l: "Suc (length (skip_ws r3)) < length s"
      using length_skip_ws [of r3] length_skip_ws [of r2] c parse_value_shorter [OF 2(1)] l0
      by simp
    from 2(2) c have "and_then (parse_members n (skip_ws r3))
        (\<lambda>ms rest. Parsed ((k, v) # ms) rest) = Failed OutOfFuel"
      by (simp split: if_splits)
    from and_then_OutOfFuel [OF this] have "parse_members n (skip_ws r3) = Failed OutOfFuel"
      by auto
    with l show ?thesis by blast
  qed
qed

lemma parse_fuel:
  "(\<forall>s. 2 * length s < f \<longrightarrow> parse_value f s \<noteq> Failed OutOfFuel)
   \<and> (\<forall>s. 2 * length s + 1 < f \<longrightarrow> parse_elems f s \<noteq> Failed OutOfFuel)
   \<and> (\<forall>s. 2 * length s + 1 < f \<longrightarrow> parse_members f s \<noteq> Failed OutOfFuel)"
proof (induction f)
  case 0
  show ?case by simp
next
  case (Suc n)
  have v: "parse_value (Suc n) s \<noteq> Failed OutOfFuel" if "2 * length s < Suc n" for s
  proof
    assume "parse_value (Suc n) s = Failed OutOfFuel"
    from parse_value_Suc_fuel [OF this] obtain s' where s': "length s' < length s"
      "parse_members n s' = Failed OutOfFuel \<or> parse_elems n s' = Failed OutOfFuel"
      by blast
    have "2 * length s' + 1 < n"
      using s'(1) that by simp
    with Suc s'(2) show False by blast
  qed
  have e: "parse_elems (Suc n) s \<noteq> Failed OutOfFuel" if "2 * length s + 1 < Suc n" for s
  proof
    assume "parse_elems (Suc n) s = Failed OutOfFuel"
    from parse_elems_Suc_fuel [OF this]
    consider "parse_value n s = Failed OutOfFuel"
      | s' where "Suc (length s') < length s" "parse_elems n s' = Failed OutOfFuel"
      by blast
    then show False
    proof cases
      case 1
      moreover have "2 * length s < n" using that by simp
      ultimately show False using Suc by blast
    next
      case 2
      moreover have "2 * length s' + 1 < n" using 2(1) that by simp
      ultimately show False using Suc by blast
    qed
  qed
  have m: "parse_members (Suc n) s \<noteq> Failed OutOfFuel" if "2 * length s + 1 < Suc n" for s
  proof
    assume "parse_members (Suc n) s = Failed OutOfFuel"
    from parse_members_Suc_fuel [OF this]
    consider s1 where "Suc (length s1) < length s" "parse_value n s1 = Failed OutOfFuel"
      | s' where "Suc (length s') < length s" "parse_members n s' = Failed OutOfFuel"
      by blast
    then show False
    proof cases
      case 1
      moreover have "2 * length s1 < n" using 1(1) that by simp
      ultimately show False using Suc by blast
    next
      case 2
      moreover have "2 * length s' + 1 < n" using 2(1) that by simp
      ultimately show False using Suc by blast
    qed
  qed
  from v e m show ?case by blast
qed

lemma JSON_parse_fuel: "JSON_parse s \<noteq> Inl OutOfFuel"
proof -
  have "2 * length (skip_ws s) < 2 * length s + 2"
    using length_skip_ws [of s] by simp
  then have "parse_value (2 * length s + 2) (skip_ws s) \<noteq> Failed OutOfFuel"
    using parse_fuel [of "2 * length s + 2"] by blast
  then show ?thesis
    by (auto simp: JSON_parse_def split: parsed.splits)
qed

subsection \<open>Replies on the wire\<close>






subsection \<open>Handling a request\<close>





subsection \<open>Allocation of call ids\<close>

lemma ids_allocated_receiveReply: "ids_allocated s \<Longrightarrow> ids_allocated (receiveReply msg s)"
  by (auto simp: ids_allocated_def receiveReply_def Let_def split: option.splits if_splits)

lemma ids_allocated_receiveReplyErr:
  "ids_allocated s \<Longrightarrow> ids_allocated (receiveReplyErr msg s)"
  by (auto simp: ids_allocated_def receiveReplyErr_def Let_def split: option.splits if_splits)

lemma ids_allocated_receiveRequest:
  "ids_allocated s \<Longrightarrow> ids_allocated (receiveRequest tr msg s)"
  by (simp add: ids_allocated_def receiveRequest_eq)

lemma ids_allocated_runReaction: "ids_allocated s \<Longrightarrow> ids_allocated (runReaction i s)"
  by (simp add: ids_allocated_def runReaction_def Let_def
      split: prod.splits handler_promise.splits)

lemma ids_allocated_receiveOneMessage:
  assumes "ids_allocated s" and "receiveOneMessage tr raw s = Inr s'"
  shows "ids_allocated s'"
proof (cases "isDisposed s")
  case True
  with assms show ?thesis by (simp add: receiveOneMessage_def)
next
  case False
  from assms(2) False obtain msg where p: "JSON_parse raw = Inr msg" and n: "msg \<noteq> JNull"
    by (auto simp: receiveOneMessage_def split: sum.splits json.splits)
  show ?thesis
    using assms receiveOneMessage_parsed [OF False p n, of tr]
    by (auto simp: ids_allocated_receiveRequest ids_allocated_receiveReply
        ids_allocated_receiveReplyErr split: if_splits)
qed

lemma ids_allocated_onMessage:
  "ids_allocated s \<Longrightarrow> onMessage tr ms s = Inr s' \<Longrightarrow> ids_allocated s'"
  by (induction ms arbitrary: s)
    (auto split: sum.splits dest: ids_allocated_receiveOneMessage)

text \<open>
  C9, as amended. While the counter is below \<open>2 ^ 53\<close>, a \<open>remoteCall\<close> on a live instance
  adds one to the counter and registers its promise under the decimal form of the new
  value; decimal forms of different numbers differ, and under the invariant
  \<open>ids_allocated\<close> the new id has no entry yet. No other operation changes the counter.
  The first Reply or ReplyErr with the id of an entry removes the entry and settles its
  promise; a second one with the same id changes nothing. The invariant holds after the
  constructor and is kept by every operation.
\<close>

theorem call_ids_allocated_once:
  assumes "\<not> isDisposed s" and "lastMessageId s < 2 ^ 53"
  shows "fst (remoteCall tr p m a s) = Deferred (length (promises s))
    \<and> lastMessageId (snd (remoteCall tr p m a s)) = lastMessageId s + 1
    \<and> pendingRPCReplies (snd (remoteCall tr p m a s)) =
        (pendingRPCReplies s)(decimal (lastMessageId s + 1) \<mapsto> length (promises s))
    \<and> (\<forall>i j. decimal i = decimal j \<longrightarrow> i = j)
    \<and> (ids_allocated s \<longrightarrow>
          pendingRPCReplies s (decimal (lastMessageId s + 1)) = None
          \<and> ids_allocated (snd (remoteCall tr p m a s)))
    \<and> (\<forall>msg r. pendingRPCReplies s (toString (reply_id msg)) = Some r \<longrightarrow>
          receiveReply msg s =
            s\<lparr>pendingRPCReplies := (pendingRPCReplies s)(toString (reply_id msg) := None),
              promises := (promises s)[r := resolveOk (reply_res msg) (promises s ! r)]\<rparr>)
    \<and> (\<forall>msg e. receiveReply msg (receiveReply msg s) = receiveReply msg s
          \<and> receiveReplyErr e (receiveReplyErr e s) = receiveReplyErr e s
          \<and> (replyErr_id e = reply_id msg \<longrightarrow>
                receiveReplyErr e (receiveReply msg s) = receiveReply msg s
                \<and> receiveReply msg (receiveReplyErr e s) = receiveReplyErr e s))
    \<and> (\<forall>msg e rq i ms s'.
          lastMessageId (receiveReply msg s) = lastMessageId s
          \<and> lastMessageId (receiveReplyErr e s) = lastMessageId s
          \<and> lastMessageId (receiveRequest tr rq s) = lastMessageId s
          \<and> lastMessageId (runReaction i s) = lastMessageId s
          \<and> (onMessage tr ms s = Inr s' \<longrightarrow> lastMessageId s' = lastMessageId s))
    \<and> (\<forall>msg e. pendingRPCReplies (receiveReply msg s) (toString (reply_id msg)) = None
          \<and> pendingRPCReplies (receiveReplyErr e s) (toString (replyErr_id e)) = None)
    \<and> ids_allocated constructor
    \<and> (ids_allocated s \<longrightarrow>
          (\<forall>ms s'. onMessage tr ms s = Inr s' \<longrightarrow> ids_allocated s')
          \<and> (\<forall>i. ids_allocated (runReaction i s)))"
proof -
  have inc: "js_increment (lastMessageId s) = lastMessageId s + 1"
    using assms(2) by (simp add: js_increment_def)
  have c: "fst (remoteCall tr p m a s) = Deferred (length (promises s))
    \<and> lastMessageId (snd (remoteCall tr p m a s)) = lastMessageId s + 1
    \<and> pendingRPCReplies (snd (remoteCall tr p m a s)) =
        (pendingRPCReplies s)(decimal (lastMessageId s + 1) \<mapsto> length (promises s))"
    using assms(1) inc by (simp add: remoteCall_live)
  have f: "ids_allocated s \<longrightarrow>
          pendingRPCReplies s (decimal (lastMessageId s + 1)) = None
          \<and> ids_allocated (snd (remoteCall tr p m a s))"
    using assms(2) ids_allocated_fresh [of s] ids_allocated_remoteCall [of s tr p m a] by blast
  have i: "\<forall>i j. decimal i = decimal j \<longrightarrow> i = j"
    by (blast dest: decimal_inj)
  have r: "\<forall>msg r. pendingRPCReplies s (toString (reply_id msg)) = Some r \<longrightarrow>
          receiveReply msg s =
            s\<lparr>pendingRPCReplies := (pendingRPCReplies s)(toString (reply_id msg) := None),
              promises := (promises s)[r := resolveOk (reply_res msg) (promises s ! r)]\<rparr>"
    by (simp add: receiveReply_present)
  have t: "\<forall>msg e. receiveReply msg (receiveReply msg s) = receiveReply msg s
          \<and> receiveReplyErr e (receiveReplyErr e s) = receiveReplyErr e s
          \<and> (replyErr_id e = reply_id msg \<longrightarrow>
                receiveReplyErr e (receiveReply msg s) = receiveReply msg s
                \<and> receiveReply msg (receiveReplyErr e s) = receiveReplyErr e s)"
    by (simp add: receiveReply_twice receiveReplyErr_twice receiveReplyErr_after_Reply
        receiveReply_after_ReplyErr)
  have l: "\<forall>msg e rq i ms s'.
          lastMessageId (receiveReply msg s) = lastMessageId s
          \<and> lastMessageId (receiveReplyErr e s) = lastMessageId s
          \<and> lastMessageId (receiveRequest tr rq s) = lastMessageId s
          \<and> lastMessageId (runReaction i s) = lastMessageId s
          \<and> (onMessage tr ms s = Inr s' \<longrightarrow> lastMessageId s' = lastMessageId s)"
    by (simp add: lastMessageId_receiveReply lastMessageId_receiveReplyErr
        lastMessageId_receiveRequest lastMessageId_runReaction lastMessageId_onMessage)
  have d: "\<forall>msg e. pendingRPCReplies (receiveReply msg s) (toString (reply_id msg)) = None
          \<and> pendingRPCReplies (receiveReplyErr e s) (toString (replyErr_id e)) = None"
    by (simp add: receiveReply_removes receiveReplyErr_removes)
  have k: "ids_allocated s \<longrightarrow>
          (\<forall>ms s'. onMessage tr ms s = Inr s' \<longrightarrow> ids_allocated s')
          \<and> (\<forall>i. ids_allocated (runReaction i s))"
    using ids_allocated_onMessage [of s tr] ids_allocated_runReaction [of s] by blast
  note z = ids_allocated_constructor
  from c f i r t l d z k show ?thesis
    by (intro conjI) (elim conjE, assumption)+
qed

theorem call_ids_allocated_once_witness:
  "\<not> isDisposed constructor \<and> lastMessageId constructor < 2 ^ 53
   \<and> fst (remoteCall None ''mService'' ''$greet'' [] constructor) = Deferred 0
   \<and> pendingRPCReplies (snd (remoteCall None ''mService'' ''$greet'' [] constructor))
       = [''1'' \<mapsto> 0]"
proof -
  have h: "\<not> isDisposed constructor" "lastMessageId constructor < 2 ^ 53"
    by (simp_all add: constructor_def)
  have v: "lastMessageId constructor = 0" "promises constructor = []"
    "pendingRPCReplies constructor = Map.empty"
    by (simp_all add: constructor_def)
  show ?thesis
    using h call_ids_allocated_once [OF h, of None "''mService''" "''$greet''" "[]"]
    by (simp add: v decimal_Suc_0)
qed

text \<open>
  C9 fails as stated at the end of the exact range of a JavaScript number: from the
  counter value \<open>2 ^ 53 - 1\<close>, two calls in a row get the same id, and the second entry
  replaces the first.
\<close>

theorem call_id_reuse_counterexample:
  "lastMessageId (snd (remoteCall None ''mService'' ''$greet'' []
       (constructor\<lparr>lastMessageId := 9007199254740991\<rparr>))) = 9007199254740992
   \<and> pendingRPCReplies (snd (remoteCall None ''mService'' ''$greet'' []
       (constructor\<lparr>lastMessageId := 9007199254740991\<rparr>))) ''9007199254740992'' = Some 0
   \<and> lastMessageId (snd (remoteCall None ''mService'' ''$greet'' []
       (snd (remoteCall None ''mService'' ''$greet'' []
         (constructor\<lparr>lastMessageId := 9007199254740991\<rparr>))))) = 9007199254740992
   \<and> pendingRPCReplies (snd (remoteCall None ''mService'' ''$greet'' []
       (snd (remoteCall None ''mService'' ''$greet'' []
         (constructor\<lparr>lastMessageId := 9007199254740991\<rparr>))))) ''9007199254740992'' = Some 1"
  by (simp add: remoteCall_def Let_def constructor_def js_increment_def decimal_limit)

end
